theory Spec2Isabelle
  imports Complex_Main "HOL-Library.Log_Nat"
begin

section \<open>Decision engine (src/systems/AdvancedAI.ts)\<close>

subsection \<open>Data model\<close>

text \<open>\<open>type Player = 'X' | 'O'\<close> (the bare name \<open>O\<close> is relation composition in HOL).\<close>

datatype Player = PlayerX | PlayerO

text \<open>A cell is \<open>Player | null\<close>; \<open>None\<close> is \<open>null\<close>.\<close>

type_synonym cell = "Player option"

type_synonym BoardState = "cell list list"

record Position =
  row :: nat
  col :: nat

text \<open>
  Scores are JavaScript numbers. The engine only ever produces integers and the two
  infinities that initialise its loops, so a score is an integer or one of \<open>-Infinity\<close>,
  \<open>Infinity\<close>, ordered as JavaScript orders them.
\<close>

datatype score = NegInf | Fin int | PosInf

instantiation score :: linorder
begin

fun less_eq_score :: "score \<Rightarrow> score \<Rightarrow> bool" where
  "less_eq_score NegInf _ = True"
| "less_eq_score (Fin a) NegInf = False"
| "less_eq_score (Fin a) (Fin b) = (a \<le> b)"
| "less_eq_score (Fin a) PosInf = True"
| "less_eq_score PosInf PosInf = True"
| "less_eq_score PosInf _ = False"

definition less_score :: "score \<Rightarrow> score \<Rightarrow> bool" where
  "less_score a b \<longleftrightarrow> a \<le> b \<and> \<not> b \<le> a"

instance
proof
  fix x y z :: score
  show "(x < y) = (x \<le> y \<and> \<not> y \<le> x)"
    by (simp add: less_score_def)
  show "x \<le> x"
    by (cases x) simp_all
  show "x \<le> y \<Longrightarrow> y \<le> z \<Longrightarrow> x \<le> z"
    by (cases x; cases y; cases z) simp_all
  show "x \<le> y \<Longrightarrow> y \<le> x \<Longrightarrow> x = y"
    by (cases x; cases y) simp_all
  show "x \<le> y \<or> y \<le> x"
    by (cases x; cases y) auto
qed

end

text \<open>\<open>score + n\<close> for a finite \<open>n\<close>: the infinities absorb it.\<close>

fun addScore :: "score \<Rightarrow> int \<Rightarrow> score" where
  "addScore NegInf n = NegInf"
| "addScore (Fin a) n = Fin (a + n)"
| "addScore PosInf n = PosInf"

datatype Difficulty = Easy | Medium | Hard | Expert | Impossible

record AIMove =
  position :: Position
  score :: score
  confidence :: real
  strategy :: string

text \<open>
  The fields of \<open>AdvancedAIPlayer\<close>. \<open>patternMemory\<close> is a \<open>Map<string, number>\<close>.
\<close>

record AdvancedAIPlayer =
  difficulty :: Difficulty
  player :: Player
  opponent :: Player
  moveHistory :: "Position list"
  patternMemory :: "string \<rightharpoonup> int"

text \<open>The constructor: the opponent is the other mark, both stores start empty.\<close>

definition newAI :: "Player \<Rightarrow> Difficulty \<Rightarrow> AdvancedAIPlayer" where
  "newAI p d =
     \<lparr>difficulty = d, player = p, opponent = (if p = PlayerX then PlayerO else PlayerX),
      moveHistory = [], patternMemory = Map.empty\<rparr>"

text \<open>The only error the engine raises: \<open>throw new Error(message)\<close>.\<close>

datatype error = Error string

subsection \<open>Board utilities\<close>

text \<open>
  \<open>board[r][c]\<close>. Reading past the end of a row gives \<open>undefined\<close> in JavaScript, which is
  neither \<open>null\<close> nor a player: that is the outer \<open>None\<close> here. (Reading a row that does
  not exist throws a TypeError in JavaScript; a board of three rows never does it.)
\<close>

definition cellAt :: "BoardState \<Rightarrow> nat \<Rightarrow> nat \<Rightarrow> cell option" where
  "cellAt board r c =
     (if r < length board \<and> c < length (board ! r) then Some (board ! r ! c) else None)"

text \<open>The two nested loops over rows and columns 0..2, pushing every \<open>null\<close> cell.\<close>

definition getAvailableMoves :: "BoardState \<Rightarrow> Position list" where
  "getAvailableMoves board =
     concat (map (\<lambda>r. concat (map (\<lambda>c.
        if cellAt board r c = Some None then [\<lparr>row = r, col = c\<rparr>] else []) [0..<3])) [0..<3])"

text \<open>
  \<open>makeMove\<close> copies every row and writes the player's mark. It is only ever called on
  positions of \<open>getAvailableMoves\<close>, which lie inside the board.
\<close>

definition makeMove :: "BoardState \<Rightarrow> Position \<Rightarrow> Player \<Rightarrow> BoardState" where
  "makeMove board pos p = board[row pos := (board ! row pos)[col pos := Some p]]"

definition checkWin :: "BoardState \<Rightarrow> Player \<Rightarrow> bool" where
  "checkWin board p \<longleftrightarrow>
     list_ex (\<lambda>r. cellAt board r 0 = Some (Some p) \<and> cellAt board r 1 = Some (Some p)
                 \<and> cellAt board r 2 = Some (Some p)) [0..<3]
     \<or> list_ex (\<lambda>c. cellAt board 0 c = Some (Some p) \<and> cellAt board 1 c = Some (Some p)
                 \<and> cellAt board 2 c = Some (Some p)) [0..<3]
     \<or> (cellAt board 0 0 = Some (Some p) \<and> cellAt board 1 1 = Some (Some p)
          \<and> cellAt board 2 2 = Some (Some p))
     \<or> (cellAt board 0 2 = Some (Some p) \<and> cellAt board 1 1 = Some (Some p)
          \<and> cellAt board 2 0 = Some (Some p))"

definition getWinner :: "BoardState \<Rightarrow> Player option" where
  "getWinner board =
     (if checkWin board PlayerX then Some PlayerX
      else if checkWin board PlayerO then Some PlayerO else None)"

definition isBoardFull :: "BoardState \<Rightarrow> bool" where
  "isBoardFull board = list_all (\<lambda>c. c \<noteq> None) (concat board)"

text \<open>\<open>board.flat().map(cell => cell || '_').join('')\<close>\<close>

definition boardToPattern :: "BoardState \<Rightarrow> string" where
  "boardToPattern board =
     map (\<lambda>c. case c of None \<Rightarrow> CHR ''_'' | Some PlayerX \<Rightarrow> CHR ''X''
                | Some PlayerO \<Rightarrow> CHR ''O'')
       (concat board)"

text \<open>A board as the game has it: three rows of three cells.\<close>

definition wf_board :: "BoardState \<Rightarrow> bool" where
  "wf_board board \<longleftrightarrow> length board = 3 \<and> list_all (\<lambda>r. length r = 3) board"

subsection \<open>Every move fills a cell\<close>

lemma cellAt_makeMove:
  "cellAt board (row m) (col m) = Some None \<Longrightarrow>
   cellAt (makeMove board m p) r c =
     (if r = row m \<and> c = col m then Some (Some p) else cellAt board r c)"
  by (auto simp: cellAt_def makeMove_def nth_list_update split: if_splits)

lemma getAvailableMoves_null:
  "m \<in> set (getAvailableMoves board) \<Longrightarrow>
     cellAt board (row m) (col m) = Some None \<and> row m < 3 \<and> col m < 3"
  by (auto simp: getAvailableMoves_def split: if_splits)

lemma getAvailableMoves_filter:
  "getAvailableMoves board =
     filter (\<lambda>m. cellAt board (row m) (col m) = Some None)
       (concat (map (\<lambda>r. map (\<lambda>c. \<lparr>row = r, col = c\<rparr>) [0..<3]) [0..<3]))"
  by (simp add: getAvailableMoves_def upt_rec numeral_eq_Suc)

lemma filter_shrinks:
  assumes "x \<in> set xs" and "P x" and "\<not> Q x" and "\<And>y. Q y \<Longrightarrow> P y"
  shows "length (filter Q xs) < length (filter P xs)"
  using assms(1)
proof (induction xs)
  case Nil
  then show ?case by simp
next
  case (Cons a xs)
  have le: "length (filter Q xs) \<le> length (filter P xs)"
    by (induction xs) (auto simp: assms(4))
  show ?case
  proof (cases "x = a")
    case True
    with le assms(2,3) show ?thesis by simp
  next
    case False
    with Cons have "length (filter Q xs) < length (filter P xs)" by simp
    then show ?thesis using assms(4) by auto
  qed
qed

lemma makeMove_fewer:
  assumes "m \<in> set (getAvailableMoves board)"
  shows "length (getAvailableMoves (makeMove board m p)) < length (getAvailableMoves board)"
proof -
  from getAvailableMoves_null [OF assms]
  have null: "cellAt board (row m) (col m) = Some None" by simp
  have mem: "m \<in> set (concat (map (\<lambda>r. map (\<lambda>c. \<lparr>row = r, col = c\<rparr>) [0..<3]) [0..<3]))"
    using assms unfolding getAvailableMoves_filter by simp
  show ?thesis
    unfolding getAvailableMoves_filter [of board]
      getAvailableMoves_filter [of "makeMove board m p"]
    by (rule filter_shrinks [OF mem]) (auto simp: cellAt_makeMove [OF null] null split: if_splits)
qed

subsection \<open>Search engine\<close>

text \<open>
  \<open>minimax\<close>: the two \<open>for\<close> loops fold \<open>Math.max\<close> (from \<open>-Infinity\<close>) and \<open>Math.min\<close>
  (from \<open>Infinity\<close>) over the available moves in order.
\<close>

function minimax :: "AdvancedAIPlayer \<Rightarrow> BoardState \<Rightarrow> int \<Rightarrow> bool \<Rightarrow> score" where
  "minimax ai board depth isMaximizing =
     (if getWinner board = Some (player ai) then Fin (10 - depth)
      else if getWinner board = Some (opponent ai) then Fin (depth - 10)
      else if isBoardFull board then Fin 0
      else if isMaximizing then
        foldl (\<lambda>bestScore move.
                 max (minimax ai (makeMove board move (player ai)) (depth + 1) False) bestScore)
          NegInf (getAvailableMoves board)
      else
        foldl (\<lambda>bestScore move.
                 min (minimax ai (makeMove board move (opponent ai)) (depth + 1) True) bestScore)
          PosInf (getAvailableMoves board))"
  by pat_completeness auto
termination
  by (relation "measure (\<lambda>(ai, board, depth, isMaximizing). length (getAvailableMoves board))")
    (auto simp: makeMove_fewer)

text \<open>
  The loops of \<open>minimaxAlphaBeta\<close>, with their \<open>break\<close>. \<open>ev alpha beta move\<close> is the
  recursive call on the board after \<open>move\<close>, with the window as it is at that iteration.
\<close>

fun maxLoop ::
  "(score \<Rightarrow> score \<Rightarrow> Position \<Rightarrow> score) \<Rightarrow> score \<Rightarrow> score \<Rightarrow> score \<Rightarrow> Position list \<Rightarrow> score"
where
  "maxLoop ev maxEval alpha beta [] = maxEval"
| "maxLoop ev maxEval alpha beta (move # rest) =
     (let evaluation = ev alpha beta move;
          maxEval' = max maxEval evaluation;
          alpha' = max alpha evaluation
      in if beta \<le> alpha' then maxEval' else maxLoop ev maxEval' alpha' beta rest)"

fun minLoop ::
  "(score \<Rightarrow> score \<Rightarrow> Position \<Rightarrow> score) \<Rightarrow> score \<Rightarrow> score \<Rightarrow> score \<Rightarrow> Position list \<Rightarrow> score"
where
  "minLoop ev minEval alpha beta [] = minEval"
| "minLoop ev minEval alpha beta (move # rest) =
     (let evaluation = ev alpha beta move;
          minEval' = min minEval evaluation;
          beta' = min beta evaluation
      in if beta' \<le> alpha then minEval' else minLoop ev minEval' alpha beta' rest)"

lemma maxLoop_cong [fundef_cong]:
  assumes "moves = moves'" and "\<And>a b m. m \<in> set moves' \<Longrightarrow> ev a b m = ev' a b m"
  shows "maxLoop ev maxEval alpha beta moves = maxLoop ev' maxEval alpha beta moves'"
  using assms(2) unfolding assms(1)
  by (induction moves' arbitrary: maxEval alpha) (simp_all add: Let_def)

lemma minLoop_cong [fundef_cong]:
  assumes "moves = moves'" and "\<And>a b m. m \<in> set moves' \<Longrightarrow> ev a b m = ev' a b m"
  shows "minLoop ev minEval alpha beta moves = minLoop ev' minEval alpha beta moves'"
  using assms(2) unfolding assms(1)
  by (induction moves' arbitrary: minEval beta) (simp_all add: Let_def)

function minimaxAlphaBeta ::
  "AdvancedAIPlayer \<Rightarrow> BoardState \<Rightarrow> int \<Rightarrow> score \<Rightarrow> score \<Rightarrow> bool \<Rightarrow> score"
where
  "minimaxAlphaBeta ai board depth alpha beta isMaximizing =
     (if getWinner board = Some (player ai) then Fin (10 - depth)
      else if getWinner board = Some (opponent ai) then Fin (depth - 10)
      else if isBoardFull board then Fin 0
      else if isMaximizing then
        maxLoop (\<lambda>a b move.
                   minimaxAlphaBeta ai (makeMove board move (player ai)) (depth + 1) a b False)
          NegInf alpha beta (getAvailableMoves board)
      else
        minLoop (\<lambda>a b move.
                   minimaxAlphaBeta ai (makeMove board move (opponent ai)) (depth + 1) a b True)
          PosInf alpha beta (getAvailableMoves board))"
  by pat_completeness auto
termination
  by (relation "measure (\<lambda>(ai, board, depth, alpha, beta, isMaximizing).
        length (getAvailableMoves board))")
    (auto simp: makeMove_fewer)

subsection \<open>Pattern memory\<close>

definition getPositionalScore :: "Position \<Rightarrow> int" where
  "getPositionalScore pos =
     (if row pos = 1 \<and> col pos = 1 then 3
      else if (row pos = 0 \<or> row pos = 2) \<and> (col pos = 0 \<or> col pos = 2) then 2
      else 1)"

text \<open>\<open>patternMemory.get(pattern) || 0\<close>, plus one, stored back. The move is not stored.\<close>

definition updatePatternMemory ::
  "AdvancedAIPlayer \<Rightarrow> BoardState \<Rightarrow> Position \<Rightarrow> AdvancedAIPlayer" where
  "updatePatternMemory ai board move =
     (let pattern = boardToPattern board;
          currentScore = (case patternMemory ai pattern of None \<Rightarrow> 0 | Some v \<Rightarrow> v)
      in ai\<lparr>patternMemory := (patternMemory ai)(pattern \<mapsto> currentScore + 1)\<rparr>)"

text \<open>
  \<open>getPatternMove\<close> returns \<open>null\<close> (here \<open>None\<close>) unless the stored count is truthy and above
  5; then it answers \<open>availableMoves[0]\<close>. Its only caller is reached after \<open>getBestMove\<close>
  has found the list of available moves non-empty.
\<close>

definition getPatternMove :: "AdvancedAIPlayer \<Rightarrow> BoardState \<Rightarrow> AIMove option" where
  "getPatternMove ai board =
     (case patternMemory ai (boardToPattern board) of
        None \<Rightarrow> None
      | Some patternScore \<Rightarrow>
          if patternScore \<noteq> 0 \<and> patternScore > 5 then
            Some \<lparr>position = hd (getAvailableMoves board), score = Fin patternScore,
                  confidence = 0.9, strategy = ''Pattern Recognition''\<rparr>
          else None)"

subsection \<open>Difficulty tiers\<close>

text \<open>
  \<open>rnd\<close> is the value \<open>Math.random()\<close> returns, a number in \<open>[0, 1)\<close>; every tier draws
  at most one. The index is \<open>Math.floor(rnd * length)\<close>.
\<close>

definition randomIndex :: "real \<Rightarrow> nat \<Rightarrow> nat" where
  "randomIndex rnd n = nat \<lfloor>rnd * real n\<rfloor>"

definition getRandomMove :: "real \<Rightarrow> BoardState \<Rightarrow> Position list \<Rightarrow> AIMove" where
  "getRandomMove rnd board availableMoves =
     (let centerCornerMoves = filter (\<lambda>move.
            (row move = 1 \<and> col move = 1)
            \<or> ((row move = 0 \<or> row move = 2) \<and> (col move = 0 \<or> col move = 2))) availableMoves;
          preferredMoves = (if length centerCornerMoves > 0 then centerCornerMoves
                            else availableMoves);
          randomMove = preferredMoves ! randomIndex rnd (length preferredMoves)
      in \<lparr>position = randomMove, score = Fin 0, confidence = 0.3,
          strategy = ''Random with preference''\<rparr>)"

definition getMediumMove ::
  "AdvancedAIPlayer \<Rightarrow> real \<Rightarrow> BoardState \<Rightarrow> Position list \<Rightarrow> AIMove" where
  "getMediumMove ai rnd board availableMoves =
     (case find (\<lambda>move. checkWin (makeMove board move (player ai)) (player ai)) availableMoves of
        Some move \<Rightarrow>
          \<lparr>position = move, score = Fin 100, confidence = 1.0, strategy = ''Winning move''\<rparr>
      | None \<Rightarrow>
     (case find (\<lambda>move. checkWin (makeMove board move (opponent ai)) (opponent ai))
             availableMoves of
        Some move \<Rightarrow>
          \<lparr>position = move, score = Fin 50, confidence = 0.9, strategy = ''Blocking move''\<rparr>
      | None \<Rightarrow>
          if cellAt board 1 1 = Some None then
            \<lparr>position = \<lparr>row = 1, col = 1\<rparr>, score = Fin 10, confidence = 0.6,
             strategy = ''Center preference''\<rparr>
          else
            let corners = filter (\<lambda>pos. cellAt board (row pos) (col pos) = Some None)
                  [\<lparr>row = 0, col = 0\<rparr>, \<lparr>row = 0, col = 2\<rparr>,
                   \<lparr>row = 2, col = 0\<rparr>, \<lparr>row = 2, col = 2\<rparr>]
            in if length corners > 0 then
                 \<lparr>position = corners ! randomIndex rnd (length corners), score = Fin 5,
                  confidence = 0.5, strategy = ''Corner preference''\<rparr>
               else getRandomMove rnd board availableMoves))"

text \<open>
  The selection loop of the three searching tiers: \<open>bestMove\<close> starts as
  \<open>availableMoves[0]\<close>, \<open>bestScore\<close> as \<open>-Infinity\<close>, and a move replaces the best one only
  when its score is strictly greater.
\<close>

definition selectBest :: "(Position \<Rightarrow> score) \<Rightarrow> Position list \<Rightarrow> Position \<times> score" where
  "selectBest scoreOf availableMoves =
     foldl (\<lambda>(bestMove, bestScore) move.
              if scoreOf move > bestScore then (move, scoreOf move) else (bestMove, bestScore))
       (hd availableMoves, NegInf) availableMoves"

definition getHardMove :: "AdvancedAIPlayer \<Rightarrow> BoardState \<Rightarrow> Position list \<Rightarrow> AIMove" where
  "getHardMove ai board availableMoves =
     (let (bestMove, bestScore) =
            selectBest (\<lambda>move. minimax ai (makeMove board move (player ai)) 0 False)
              availableMoves
      in \<lparr>position = bestMove, score = bestScore, confidence = 0.8, strategy = ''Minimax''\<rparr>)"

definition getExpertMove ::
  "AdvancedAIPlayer \<Rightarrow> BoardState \<Rightarrow> Position list \<Rightarrow> AIMove \<times> AdvancedAIPlayer" where
  "getExpertMove ai board availableMoves =
     (let (bestMove, bestScore) =
            selectBest (\<lambda>move. minimaxAlphaBeta ai (makeMove board move (player ai)) 0
                                 NegInf PosInf False)
              availableMoves
      in (\<lparr>position = bestMove, score = bestScore, confidence = 0.95,
           strategy = ''Alpha-Beta Pruning''\<rparr>,
          updatePatternMemory ai board bestMove))"

definition getImpossibleMove ::
  "AdvancedAIPlayer \<Rightarrow> BoardState \<Rightarrow> Position list \<Rightarrow> AIMove \<times> AdvancedAIPlayer" where
  "getImpossibleMove ai board availableMoves =
     (case getPatternMove ai board of
        Some patternMove \<Rightarrow> (patternMove, ai)
      | None \<Rightarrow>
          let (bestMove, bestScore) =
                selectBest (\<lambda>move.
                    addScore (minimaxAlphaBeta ai (makeMove board move (player ai)) 0
                                NegInf PosInf False)
                      (getPositionalScore move))
                  availableMoves
          in (\<lparr>position = bestMove, score = bestScore, confidence = 1.0,
               strategy = ''Perfect Play + Patterns''\<rparr>,
              updatePatternMemory ai board bestMove))"

text \<open>
  \<open>getBestMove\<close> returns the move and the engine as the call leaves it (only the pattern
  memory can change), or the error it throws.
\<close>

definition getBestMove ::
  "AdvancedAIPlayer \<Rightarrow> real \<Rightarrow> BoardState \<Rightarrow> error + (AIMove \<times> AdvancedAIPlayer)" where
  "getBestMove ai rnd board =
     (let availableMoves = getAvailableMoves board in
      if length availableMoves = 0 then Inl (Error ''No available moves'')
      else case difficulty ai of
        Easy \<Rightarrow> Inr (getRandomMove rnd board availableMoves, ai)
      | Medium \<Rightarrow> Inr (getMediumMove ai rnd board availableMoves, ai)
      | Hard \<Rightarrow> Inr (getHardMove ai board availableMoves, ai)
      | Expert \<Rightarrow> Inr (getExpertMove ai board availableMoves)
      | Impossible \<Rightarrow> Inr (getImpossibleMove ai board availableMoves))"

text \<open>
  The engine after \<open>n\<close> calls of \<open>getBestMove\<close> on one board, every draw of
  \<open>Math.random()\<close> being 0; a call that throws leaves it as it is.
\<close>

fun askTimes :: "nat \<Rightarrow> AdvancedAIPlayer \<Rightarrow> BoardState \<Rightarrow> AdvancedAIPlayer" where
  "askTimes 0 ai board = ai"
| "askTimes (Suc n) ai board =
     (case getBestMove ai 0 board of Inl e \<Rightarrow> ai | Inr (move, ai') \<Rightarrow> askTimes n ai' board)"

subsection \<open>What a search inside a window says about the true value\<close>

text \<open>
  \<open>r\<close> is what a search with window \<open>(a, b)\<close> returned and \<open>v\<close> the value without pruning:
  a result at or below \<open>a\<close> is an upper bound of \<open>v\<close>, a result at or above \<open>b\<close> a lower
  bound, and a result strictly inside the window is exact.
\<close>

definition withinWindow :: "score \<Rightarrow> score \<Rightarrow> score \<Rightarrow> score \<Rightarrow> bool" where
  "withinWindow a b v r \<longleftrightarrow> (r \<le> a \<longrightarrow> v \<le> r) \<and> (a < r \<and> r < b \<longrightarrow> r = v) \<and> (b \<le> r \<longrightarrow> r \<le> v)"

section \<open>Tournament orchestrator (TournamentSystem)\<close>

subsection \<open>Data model\<close>

datatype PlayerKind = Human | AI

datatype MatchResult = Player1 | Player2 | Draw | Pending

datatype TournamentType = SingleElimination | DoubleElimination | RoundRobin | Swiss

datatype TournamentStatus = Setup | InProgress | Completed

text \<open>
  Players and their \<open>stats\<close> are JavaScript objects that several places refer to: the
  registry, the participant list of a tournament and its matches. They live in two
  stores, addressed by references; \<open>stats\<close> of a player is the reference of its stats
  object, as in the source, where \<open>{ ...player }\<close> copies that reference.
\<close>

type_synonym ref = nat

record Stats =
  wins :: int
  losses :: int
  draws :: int
  gamesPlayed :: int

record TournamentPlayer =
  p_id :: string
  p_name :: string
  p_type :: PlayerKind
  p_difficulty :: "Difficulty option"
  stats :: ref
  elo :: int

text \<open>
  A match names its two players by reference. The timestamps (\<open>startTime\<close>, \<open>endTime\<close>)
  are left out: nothing reads them.
\<close>

record Match =
  m_id :: string
  player1 :: ref
  player2 :: ref
  result :: MatchResult
  roundNumber :: nat
  moves :: "(Player \<times> Position) list"

text \<open>
  The bracket is written when the tournament is generated and never read again by the
  orchestrator; its rounds and its grand final name their matches by id.
\<close>

record TournamentBracket =
  rounds :: "string list list"
  grandFinals :: "string option"

record Tournament =
  t_id :: string
  t_name :: string
  t_type :: TournamentType
  status :: TournamentStatus
  players :: "ref list"
  matches :: "Match list"
  bracket :: TournamentBracket
  currentRound :: nat
  totalRounds :: nat
  winner :: "ref option"

text \<open>
  The orchestrator: its two maps, the two object stores with their next free reference,
  and the values \<open>Math.random()\<close> will return. \<open>generateId\<close> turns one draw into a
  seven-character id; the ids it will produce are \<open>randomIds\<close>, the draws of the shuffle are
  \<open>randomReals\<close>, each a number in \<open>[0, 1)\<close>. (\<open>matchHistory\<close> is never written.)
\<close>

record TournamentSystem =
  tournaments :: "string \<rightharpoonup> Tournament"
  playerDatabase :: "string \<rightharpoonup> ref"
  playerObjs :: "ref \<Rightarrow> TournamentPlayer"
  statsObjs :: "ref \<Rightarrow> Stats"
  nextPlayerRef :: ref
  nextStatsRef :: ref
  randomIds :: "nat \<Rightarrow> string"
  idsDrawn :: nat
  randomReals :: "nat \<Rightarrow> real"
  realsDrawn :: nat

subsection \<open>Allocation and randomness\<close>

definition generateId :: "TournamentSystem \<Rightarrow> string \<times> TournamentSystem" where
  "generateId s = (randomIds s (idsDrawn s), s\<lparr>idsDrawn := idsDrawn s + 1\<rparr>)"

definition allocStats :: "TournamentSystem \<Rightarrow> Stats \<Rightarrow> ref \<times> TournamentSystem" where
  "allocStats s obj =
     (nextStatsRef s,
      s\<lparr>statsObjs := (statsObjs s)(nextStatsRef s := obj), nextStatsRef := nextStatsRef s + 1\<rparr>)"

definition allocPlayer :: "TournamentSystem \<Rightarrow> TournamentPlayer \<Rightarrow> ref \<times> TournamentSystem" where
  "allocPlayer s obj =
     (nextPlayerRef s,
      s\<lparr>playerObjs := (playerObjs s)(nextPlayerRef s := obj),
        nextPlayerRef := nextPlayerRef s + 1\<rparr>)"

text \<open>
  \<open>shuffleArray\<close>: for \<open>i\<close> from \<open>length - 1\<close> down to 1, swap \<open>array[i]\<close> with \<open>array[j]\<close>,
  \<open>j = Math.floor(Math.random() * (i + 1))\<close>. The second argument counts the draws.
\<close>

fun shuffleLoop :: "nat \<Rightarrow> (nat \<Rightarrow> real) \<Rightarrow> nat \<Rightarrow> 'a list \<Rightarrow> 'a list \<times> nat" where
  "shuffleLoop 0 rs k array = (array, k)"
| "shuffleLoop (Suc i) rs k array =
     (let j = nat \<lfloor>rs k * real (Suc i + 1)\<rfloor>
      in shuffleLoop i rs (k + 1) (array[Suc i := array ! j, j := array ! Suc i]))"

definition shuffleArray :: "TournamentSystem \<Rightarrow> 'a list \<Rightarrow> 'a list \<times> TournamentSystem" where
  "shuffleArray s array =
     (let (shuffled, k) = shuffleLoop (length array - 1) (randomReals s) (realsDrawn s) array
      in (shuffled, s\<lparr>realsDrawn := k\<rparr>))"

subsection \<open>The registry\<close>

definition difficultyName :: "Difficulty \<Rightarrow> string" where
  "difficultyName d = (case d of Easy \<Rightarrow> ''Easy'' | Medium \<Rightarrow> ''Medium'' | Hard \<Rightarrow> ''Hard''
                        | Expert \<Rightarrow> ''Expert'' | Impossible \<Rightarrow> ''Impossible'')"

definition difficultyLower :: "Difficulty \<Rightarrow> string" where
  "difficultyLower d = (case d of Easy \<Rightarrow> ''easy'' | Medium \<Rightarrow> ''medium'' | Hard \<Rightarrow> ''hard''
                        | Expert \<Rightarrow> ''expert'' | Impossible \<Rightarrow> ''impossible'')"

text \<open>A new registry entry: a fresh stats object of zeros and a fresh player object.\<close>

definition registerPlayer ::
  "TournamentSystem \<Rightarrow> string \<Rightarrow> string \<Rightarrow> PlayerKind \<Rightarrow> Difficulty option \<Rightarrow> int
     \<Rightarrow> ref \<times> TournamentSystem" where
  "registerPlayer s i n k d e =
     (let (st, s1) = allocStats s \<lparr>wins = 0, losses = 0, draws = 0, gamesPlayed = 0\<rparr>;
          (p, s2) = allocPlayer s1 \<lparr>p_id = i, p_name = n, p_type = k, p_difficulty = d,
                                     stats = st, elo = e\<rparr>
      in (p, s2\<lparr>playerDatabase := (playerDatabase s2)(i \<mapsto> p)\<rparr>))"

text \<open>
  The constructor runs \<open>initializeAIPlayers\<close>: one AI player for each difficulty, at index
  0 to 4, with rating \<open>1200 + index * 200\<close>.
\<close>

definition emptySystem :: "(nat \<Rightarrow> string) \<Rightarrow> (nat \<Rightarrow> real) \<Rightarrow> TournamentSystem" where
  "emptySystem ids reals =
     \<lparr>tournaments = Map.empty, playerDatabase = Map.empty,
      playerObjs = (\<lambda>_. \<lparr>p_id = [], p_name = [], p_type = Human, p_difficulty = None,
                           stats = 0, elo = 0\<rparr>),
      statsObjs = (\<lambda>_. \<lparr>wins = 0, losses = 0, draws = 0, gamesPlayed = 0\<rparr>),
      nextPlayerRef = 0, nextStatsRef = 0,
      randomIds = ids, idsDrawn = 0, randomReals = reals, realsDrawn = 0\<rparr>"

definition initializeAIPlayers :: "TournamentSystem \<Rightarrow> TournamentSystem" where
  "initializeAIPlayers s =
     foldl (\<lambda>s' (difficulty, index).
              snd (registerPlayer s' (''ai_'' @ difficultyLower difficulty)
                     (''AI '' @ difficultyName difficulty) AI (Some difficulty)
                     (1200 + int index * 200)))
       s (zip [Easy, Medium, Hard, Expert, Impossible] [0..<5])"

definition newTournamentSystem :: "(nat \<Rightarrow> string) \<Rightarrow> (nat \<Rightarrow> real) \<Rightarrow> TournamentSystem" where
  "newTournamentSystem ids reals = initializeAIPlayers (emptySystem ids reals)"

definition addHumanPlayer :: "TournamentSystem \<Rightarrow> string \<Rightarrow> ref \<times> TournamentSystem" where
  "addHumanPlayer s n =
     (let (i, s1) = generateId s in registerPlayer s1 i n Human None 1200)"

subsection \<open>Bracket generation\<close>

definition newMatch :: "TournamentSystem \<Rightarrow> nat \<Rightarrow> ref \<times> ref \<Rightarrow> Match \<times> TournamentSystem" where
  "newMatch s rn pair =
     (let (i, s1) = generateId s
      in (\<lparr>m_id = i, player1 = fst pair, player2 = snd pair, result = Pending,
           roundNumber = rn, moves = []\<rparr>, s1))"

text \<open>One match for each pair, in order, each with the next id.\<close>

fun newMatches ::
  "TournamentSystem \<Rightarrow> nat \<Rightarrow> (ref \<times> ref) list \<Rightarrow> Match list \<times> TournamentSystem" where
  "newMatches s rn [] = ([], s)"
| "newMatches s rn (pair # pairs) =
     (let (m, s1) = newMatch s rn pair; (ms, s2) = newMatches s1 rn pairs in (m # ms, s2))"

text \<open>
  \<open>for (i = 0; i < players.length; i += 2)\<close> with \<open>if (player1 && player2)\<close>: a slot that is
  \<open>null\<close> (a bye, a placeholder) or past the end of the array makes no match.
\<close>

fun presentPairs :: "ref option list \<Rightarrow> (ref \<times> ref) list" where
  "presentPairs (Some a # Some b # rest) = (a, b) # presentPairs rest"
| "presentPairs (_ # _ # rest) = presentPairs rest"
| "presentPairs _ = []"

text \<open>\<open>for (i = 0; i < xs.length; i += 2)\<close> with \<open>if (i + 1 < xs.length)\<close>.\<close>

fun consecutivePairs :: "'a list \<Rightarrow> ('a \<times> 'a) list" where
  "consecutivePairs (a # b # rest) = (a, b) # consecutivePairs rest"
| "consecutivePairs _ = []"

text \<open>All pairs \<open>(players[i], players[j])\<close> with \<open>i < j\<close>, \<open>i\<close> outermost.\<close>

fun allPairs :: "'a list \<Rightarrow> ('a \<times> 'a) list" where
  "allPairs [] = []"
| "allPairs (p # ps) = map (Pair p) ps @ allPairs ps"

lemma length_newMatches: "length (fst (newMatches s rn pairs)) = length pairs"
  by (induction pairs arbitrary: s) (simp_all add: split_beta)

lemma length_presentPairs: "2 * length (presentPairs ps) \<le> length ps"
  by (induction ps rule: presentPairs.induct) simp_all

text \<open>
  The \<open>while (players.length > 1)\<close> loop of \<open>generateSingleEliminationBracket\<close>: the matches
  of the round, then the next round over as many \<open>null\<close> placeholders as matches made.
\<close>

function seRounds ::
  "TournamentSystem \<Rightarrow> nat \<Rightarrow> ref option list \<Rightarrow> Match list list \<times> TournamentSystem" where
  "seRounds s rn ps =
     (if length ps > 1 then
        (let roundMatches = newMatches s rn (presentPairs ps);
             later = seRounds (snd roundMatches) (rn + 1) (map (\<lambda>_. None) (fst roundMatches))
         in (fst roundMatches # fst later, snd later))
      else ([], s))"
  by pat_completeness auto
termination
proof (relation "measure (\<lambda>(s, rn, ps). length ps)")
  show "wf (measure (\<lambda>(s, rn, ps). length ps))" by simp
next
  fix s :: TournamentSystem and rn :: nat and ps :: "ref option list" and x
  assume "1 < length ps" and "x = newMatches s rn (presentPairs ps)"
  then show "((snd x, rn + 1, map (\<lambda>_. None) (fst x)), s, rn, ps)
               \<in> measure (\<lambda>(s, rn, ps). length ps)"
    using length_presentPairs [of ps] by (simp add: length_newMatches)
qed

declare seRounds.simps [simp del]

definition calculateTotalRounds :: "TournamentType \<Rightarrow> nat \<Rightarrow> nat" where
  "calculateTotalRounds ty playerCount =
     (case ty of
        SingleElimination \<Rightarrow> ceillog2 playerCount
      | DoubleElimination \<Rightarrow> ceillog2 playerCount * 2
      | RoundRobin \<Rightarrow> 1
      | Swiss \<Rightarrow> ceillog2 playerCount)"

definition generateSingleEliminationBracket ::
  "TournamentSystem \<Rightarrow> Tournament \<Rightarrow> Tournament \<times> TournamentSystem" where
  "generateSingleEliminationBracket s t =
     (let nextPowerOf2 = (2::nat) ^ ceillog2 (length (players t));
          padded = map Some (players t) @ replicate (nextPowerOf2 - length (players t)) None;
          (rs, s1) = seRounds s 1 padded
      in (t\<lparr>matches := matches t @ concat rs,
            bracket := (bracket t)\<lparr>rounds := map (map m_id) rs\<rparr>\<rparr>, s1))"

text \<open>
  Double elimination: the single-elimination bracket, then one id drawn for the losers
  match of each bracket match (those matches are dropped), then the grand final, which is
  kept in the bracket only.
\<close>

definition generateDoubleEliminationBracket ::
  "TournamentSystem \<Rightarrow> Tournament \<Rightarrow> Tournament \<times> TournamentSystem" where
  "generateDoubleEliminationBracket s t =
     (let (t1, s1) = generateSingleEliminationBracket s t;
          s2 = foldl (\<lambda>s' m. snd (generateId s')) s1 (concat (rounds (bracket t1)));
          (i, s3) = generateId s2
      in (t1\<lparr>bracket := (bracket t1)\<lparr>grandFinals := Some i\<rparr>\<rparr>, s3))"

definition generateRoundRobinBracket ::
  "TournamentSystem \<Rightarrow> Tournament \<Rightarrow> Tournament \<times> TournamentSystem" where
  "generateRoundRobinBracket s t =
     (let (ms, s1) = newMatches s 1 (allPairs (players t));
          t1 = t\<lparr>matches := matches t @ ms\<rparr>
      in (t1\<lparr>bracket := (bracket t1)\<lparr>rounds := [map m_id (matches t1)]\<rparr>\<rparr>, s1))"

definition generateSwissBracket ::
  "TournamentSystem \<Rightarrow> Tournament \<Rightarrow> Tournament \<times> TournamentSystem" where
  "generateSwissBracket s t =
     (let (shuffled, s1) = shuffleArray s (players t);
          (firstRoundMatches, s2) = newMatches s1 1 (consecutivePairs shuffled)
      in (t\<lparr>matches := matches t @ firstRoundMatches,
            bracket := (bracket t)\<lparr>rounds := [map m_id firstRoundMatches]\<rparr>\<rparr>, s2))"

definition generateBracket ::
  "TournamentSystem \<Rightarrow> Tournament \<Rightarrow> Tournament \<times> TournamentSystem" where
  "generateBracket s t =
     (case t_type t of
        SingleElimination \<Rightarrow> generateSingleEliminationBracket s t
      | DoubleElimination \<Rightarrow> generateDoubleEliminationBracket s t
      | RoundRobin \<Rightarrow> generateRoundRobinBracket s t
      | Swiss \<Rightarrow> generateSwissBracket s t)"

subsection \<open>Creating and starting a tournament\<close>

text \<open>
  \<open>playerIds.map\<close>: each id is looked up in the registry, the first missing one throws;
  \<open>{ ...player }\<close> makes a new player object with the same fields, among them the
  reference to the registry entry's stats object.
\<close>

fun clonePlayers :: "TournamentSystem \<Rightarrow> string list \<Rightarrow> error + (ref list \<times> TournamentSystem)"
where
  "clonePlayers s [] = Inr ([], s)"
| "clonePlayers s (i # is) =
     (case playerDatabase s i of
        None \<Rightarrow> Inl (Error (''Player '' @ i @ '' not found''))
      | Some r \<Rightarrow>
          (let (c, s1) = allocPlayer s (playerObjs s r)
           in case clonePlayers s1 is of
                Inl e \<Rightarrow> Inl e
              | Inr (cs, s2) \<Rightarrow> Inr (c # cs, s2)))"

definition createTournament ::
  "TournamentSystem \<Rightarrow> string \<Rightarrow> TournamentType \<Rightarrow> string list
     \<Rightarrow> error + (Tournament \<times> TournamentSystem)" where
  "createTournament s name ty playerIds =
     (if length playerIds < 2 then Inl (Error ''Tournament requires at least 2 players'')
      else case clonePlayers s playerIds of
        Inl e \<Rightarrow> Inl e
      | Inr (ps, s1) \<Rightarrow>
          (let (i, s2) = generateId s1;
               tournament = \<lparr>t_id = i, t_name = name, t_type = ty, status = Setup,
                   players = ps, matches = [],
                   bracket = \<lparr>rounds = [], grandFinals = None\<rparr>,
                   currentRound = 0, totalRounds = calculateTotalRounds ty (length ps),
                   winner = None\<rparr>;
               (t1, s3) = generateBracket s2 tournament
           in Inr (t1, s3\<lparr>tournaments := (tournaments s3)(i \<mapsto> t1)\<rparr>)))"

definition startTournament ::
  "TournamentSystem \<Rightarrow> string \<Rightarrow> error + (Tournament \<times> TournamentSystem)" where
  "startTournament s tournamentId =
     (case tournaments s tournamentId of
        None \<Rightarrow> Inl (Error ''Tournament not found'')
      | Some t \<Rightarrow>
          (let t1 = t\<lparr>status := InProgress, currentRound := 1\<rparr>
           in Inr (t1, s\<lparr>tournaments := (tournaments s)(tournamentId \<mapsto> t1)\<rparr>)))"

subsection \<open>Reporting a result\<close>

text \<open>
  \<open>updatePlayer\<close> of \<open>updatePlayerStats\<close>: the counters of the stats object the player
  refers to are incremented in place.
\<close>

definition updatePlayer :: "TournamentSystem \<Rightarrow> ref \<Rightarrow> bool \<Rightarrow> bool \<Rightarrow> TournamentSystem" where
  "updatePlayer s p won drew =
     (let st = stats (playerObjs s p);
          played = (statsObjs s st)\<lparr>gamesPlayed := gamesPlayed (statsObjs s st) + 1\<rparr>;
          counted = (if won then played\<lparr>wins := wins played + 1\<rparr>
                     else if drew then played\<lparr>draws := draws played + 1\<rparr>
                     else played\<lparr>losses := losses played + 1\<rparr>)
      in s\<lparr>statsObjs := (statsObjs s)(st := counted)\<rparr>)"

definition updatePlayerStats :: "TournamentSystem \<Rightarrow> Match \<Rightarrow> TournamentSystem" where
  "updatePlayerStats s m =
     (case result m of
        Player1 \<Rightarrow> updatePlayer (updatePlayer s (player1 m) True False) (player2 m) False False
      | Player2 \<Rightarrow> updatePlayer (updatePlayer s (player1 m) False False) (player2 m) True False
      | Draw \<Rightarrow> updatePlayer (updatePlayer s (player1 m) False True) (player2 m) False True
      | Pending \<Rightarrow> s)"

text \<open>
  The rating formula, over the real numbers (the source computes it in double precision):
  \<open>expected = 1 / (1 + 10 ^ ((other - own) / 400))\<close>, and
  \<open>Math.round(own + K * (actual - expected))\<close> with \<open>K = 32\<close>. \<open>Math.round\<close> rounds
  halves up.
\<close>

definition mathRound :: "real \<Rightarrow> int" where
  "mathRound x = \<lfloor>x + 1 / 2\<rfloor>"

definition expectedScore :: "int \<Rightarrow> int \<Rightarrow> real" where
  "expectedScore own other = 1 / (1 + 10 powr (real_of_int (other - own) / 400))"

text \<open>The two new ratings for a match between ratings \<open>e1\<close> and \<open>e2\<close>; none for \<open>Pending\<close>.\<close>

definition newRatings :: "MatchResult \<Rightarrow> int \<Rightarrow> int \<Rightarrow> (int \<times> int) option" where
  "newRatings r player1Elo player2Elo =
     (let K = 32;
          expectedScore1 = expectedScore player1Elo player2Elo;
          expectedScore2 = expectedScore player2Elo player1Elo
      in case (case r of Player1 \<Rightarrow> Some (1, 0) | Player2 \<Rightarrow> Some (0, 1)
                 | Draw \<Rightarrow> Some (1 / 2, 1 / 2) | Pending \<Rightarrow> None) of
           None \<Rightarrow> None
         | Some (actualScore1, actualScore2) \<Rightarrow>
             Some (mathRound (real_of_int player1Elo + K * (actualScore1 - expectedScore1)),
                   mathRound (real_of_int player2Elo + K * (actualScore2 - expectedScore2))))"

text \<open>Both ratings are read before either is written; player 1 is written first.\<close>

definition updateELORatings :: "TournamentSystem \<Rightarrow> Match \<Rightarrow> TournamentSystem" where
  "updateELORatings s m =
     (case newRatings (result m) (elo (playerObjs s (player1 m))) (elo (playerObjs s (player2 m)))
      of None \<Rightarrow> s
       | Some (elo1, elo2) \<Rightarrow>
           (let s1 = s\<lparr>playerObjs := (playerObjs s)
                         (player1 m := (playerObjs s (player1 m))\<lparr>elo := elo1\<rparr>)\<rparr>
            in s1\<lparr>playerObjs := (playerObjs s1)
                         (player2 m := (playerObjs s1 (player2 m))\<lparr>elo := elo2\<rparr>)\<rparr>))"

definition isTournamentComplete :: "Tournament \<Rightarrow> bool" where
  "isTournamentComplete t =
     (let finalRoundMatches = filter (\<lambda>m. roundNumber m = totalRounds t) (matches t)
      in if length finalRoundMatches = 0 then False
         else list_all (\<lambda>m. result m \<noteq> Pending) finalRoundMatches)"

text \<open>Only a single-elimination tournament gets a winner.\<close>

definition completeTournament :: "Tournament \<Rightarrow> Tournament" where
  "completeTournament t =
     (let t1 = t\<lparr>status := Completed\<rparr>
      in if t_type t1 = SingleElimination then
           (case find (\<lambda>m. roundNumber m = totalRounds t1 \<and> result m \<noteq> Pending) (matches t1) of
              Some finalMatch \<Rightarrow>
                t1\<lparr>winner := Some (if result finalMatch = Player1 then player1 finalMatch
                                    else player2 finalMatch)\<rparr>
            | None \<Rightarrow> t1)
         else t1)"

definition advanceSingleElimination ::
  "TournamentSystem \<Rightarrow> Tournament \<Rightarrow> Tournament \<times> TournamentSystem" where
  "advanceSingleElimination s t =
     (let currentRoundMatches =
            filter (\<lambda>m. roundNumber m = currentRound t \<and> result m \<noteq> Pending) (matches t)
      in if length currentRoundMatches = 0 then (t, s)
         else
           let allCurrentRoundMatches = filter (\<lambda>m. roundNumber m = currentRound t) (matches t)
           in if length currentRoundMatches < length allCurrentRoundMatches then (t, s)
              else if currentRound t < totalRounds t then
                (let t1 = t\<lparr>currentRound := currentRound t + 1\<rparr>;
                     winners = map (\<lambda>m. case result m of Player1 \<Rightarrow> player1 m
                                          | Player2 \<Rightarrow> player2 m | _ \<Rightarrow> player1 m)
                                 currentRoundMatches;
                     (ms, s1) = newMatches s (currentRound t1) (consecutivePairs winners)
                 in (t1\<lparr>matches := matches t1 @ ms\<rparr>, s1))
              else (t, s))"

definition advanceTournament ::
  "TournamentSystem \<Rightarrow> Tournament \<Rightarrow> Tournament \<times> TournamentSystem" where
  "advanceTournament s t =
     (if t_type t = SingleElimination then advanceSingleElimination s t else (t, s))"

text \<open>\<open>match.result = result\<close> on the match that \<open>find\<close> returns: the first with that id.\<close>

fun setResult :: "string \<Rightarrow> MatchResult \<Rightarrow> Match list \<Rightarrow> Match list" where
  "setResult matchId r [] = []"
| "setResult matchId r (m # ms) =
     (if m_id m = matchId then m\<lparr>result := r\<rparr> # ms else m # setResult matchId r ms)"

definition reportMatchResult ::
  "TournamentSystem \<Rightarrow> string \<Rightarrow> string \<Rightarrow> MatchResult \<Rightarrow> error + TournamentSystem" where
  "reportMatchResult s tournamentId matchId r =
     (case tournaments s tournamentId of
        None \<Rightarrow> Inl (Error ''Tournament not found'')
      | Some t \<Rightarrow>
          (case find (\<lambda>m. m_id m = matchId) (matches t) of
             None \<Rightarrow> Inl (Error ''Match not found'')
           | Some m0 \<Rightarrow>
               (let m = m0\<lparr>result := r\<rparr>;
                    t1 = t\<lparr>matches := setResult matchId r (matches t)\<rparr>;
                    s1 = updatePlayerStats s m;
                    s2 = updateELORatings s1 m;
                    (t2, s3) = (if isTournamentComplete t1 then (completeTournament t1, s2)
                                else advanceTournament s2 t1)
                in Inr (s3\<lparr>tournaments := (tournaments s3)(tournamentId \<mapsto> t2)\<rparr>))))"

definition getNextMatches :: "TournamentSystem \<Rightarrow> string \<Rightarrow> error + Match list" where
  "getNextMatches s tournamentId =
     (case tournaments s tournamentId of
        None \<Rightarrow> Inl (Error ''Tournament not found'')
      | Some t \<Rightarrow> Inr (filter (\<lambda>m. result m = Pending) (matches t)))"

subsection \<open>States the operations can reach\<close>

text \<open>
  From a new orchestrator, by \<open>addHumanPlayer\<close>, \<open>createTournament\<close>, \<open>startTournament\<close>
  and \<open>reportMatchResult\<close>, with any arguments, whenever the call returns.
\<close>

inductive reachable :: "TournamentSystem \<Rightarrow> bool" where
  new: "reachable (newTournamentSystem ids reals)"
| human: "reachable s \<Longrightarrow> addHumanPlayer s n = (p, s') \<Longrightarrow> reachable s'"
| create: "reachable s \<Longrightarrow> createTournament s n ty playerIds = Inr (t, s') \<Longrightarrow> reachable s'"
| start: "reachable s \<Longrightarrow> startTournament s tournamentId = Inr (t, s') \<Longrightarrow> reachable s'"
| report: "reachable s \<Longrightarrow> reportMatchResult s tournamentId matchId r = Inr s' \<Longrightarrow> reachable s'"

subsection \<open>Winner and status\<close>

text \<open>
  What holds of every tournament the operations can produce: only a single-elimination
  tournament ever has a winner, a completed single-elimination tournament has one, and a
  tournament with a winner has left \<open>Setup\<close>.
\<close>

definition winnerStatus :: "Tournament \<Rightarrow> bool" where
  "winnerStatus t \<longleftrightarrow>
     (t_type t \<noteq> SingleElimination \<longrightarrow> winner t = None)
     \<and> (t_type t = SingleElimination \<and> status t = Completed \<longrightarrow> winner t \<noteq> None)
     \<and> (winner t \<noteq> None \<longrightarrow> status t \<noteq> Setup)"

subsection \<open>Sample runs\<close>

text \<open>
  Concrete runs of the orchestrator, used to evaluate it: the ids drawn are \<open>a\<close>, \<open>aa\<close>,
  \<open>aaa\<close>, ... and every draw of the shuffle is 0.
\<close>

definition sampleIds :: "nat \<Rightarrow> string" where
  "sampleIds n = replicate (Suc n) CHR ''a''"

definition sampleReals :: "nat \<Rightarrow> real" where
  "sampleReals n = 0"

definition andThen :: "error + 'a \<Rightarrow> ('a \<Rightarrow> error + 'b) \<Rightarrow> error + 'b" where
  "andThen r f = (case r of Inl e \<Rightarrow> Inl e | Inr x \<Rightarrow> f x)"

text \<open>
  A tournament of the two weakest AI players is created and started, and \<open>Player1\<close> is
  reported in its first match.
\<close>

definition createStartReport :: "TournamentType \<Rightarrow> error + TournamentSystem" where
  "createStartReport ty =
     andThen (createTournament (newTournamentSystem sampleIds sampleReals) ''T'' ty
                [''ai_easy'', ''ai_medium''])
       (\<lambda>(t, s). andThen (startTournament s (t_id t))
          (\<lambda>(t1, s1). reportMatchResult s1 (t_id t1) (m_id (hd (matches t1))) Player1))"

definition roundRobinReported :: "error + TournamentSystem" where
  "roundRobinReported = createStartReport RoundRobin"

definition tournamentOf :: "error + TournamentSystem \<Rightarrow> string \<Rightarrow> Tournament option" where
  "tournamentOf r tournamentId =
     (case r of Inl e \<Rightarrow> None | Inr s \<Rightarrow> tournaments s tournamentId)"

definition registryStats :: "error + TournamentSystem \<Rightarrow> string \<Rightarrow> Stats option" where
  "registryStats r playerId =
     (case r of Inl e \<Rightarrow> None
      | Inr s \<Rightarrow> map_option (\<lambda>p. statsObjs s (stats (playerObjs s p))) (playerDatabase s playerId))"

definition registryElo :: "error + TournamentSystem \<Rightarrow> string \<Rightarrow> int option" where
  "registryElo r playerId =
     (case r of Inl e \<Rightarrow> None
      | Inr s \<Rightarrow> map_option (\<lambda>p. elo (playerObjs s p)) (playerDatabase s playerId))"

text \<open>The same match is reported a second time, now as \<open>Player2\<close>.\<close>

definition roundRobinReportedTwice :: "error + TournamentSystem" where
  "roundRobinReportedTwice =
     andThen roundRobinReported (\<lambda>s. reportMatchResult s ''a'' ''aa'' Player2)"

definition eliminationReported :: "error + TournamentSystem" where
  "eliminationReported = createStartReport SingleElimination"

text \<open>The completed tournament is started once more.\<close>

definition eliminationRestarted :: "error + TournamentSystem" where
  "eliminationRestarted =
     andThen eliminationReported (\<lambda>s. map_sum id snd (startTournament s ''a''))"

definition matchResults :: "error + TournamentSystem \<Rightarrow> string \<Rightarrow> MatchResult list option" where
  "matchResults r tournamentId =
     map_option (\<lambda>t. map result (matches t)) (tournamentOf r tournamentId)"

text \<open>
  A single elimination of the four weakest AI players is created and \<open>Player1\<close> is reported
  in both of its matches; \<open>startTournament\<close> is not called.
\<close>

definition fourReportedUnstarted :: "error + TournamentSystem" where
  "fourReportedUnstarted =
     andThen (createTournament (newTournamentSystem sampleIds sampleReals) ''Cup''
                SingleElimination [''ai_easy'', ''ai_medium'', ''ai_hard'', ''ai_expert''])
       (\<lambda>(t, s). andThen (reportMatchResult s (t_id t) (m_id (matches t ! 0)) Player1)
          (\<lambda>s1. reportMatchResult s1 (t_id t) (m_id (matches t ! 1)) Player1))"

definition matchRounds :: "error + TournamentSystem \<Rightarrow> string \<Rightarrow> nat list option" where
  "matchRounds r tournamentId =
     map_option (\<lambda>t. map roundNumber (matches t)) (tournamentOf r tournamentId)"

section \<open>Properties of the decision engine\<close>

subsection \<open>Pruning preserves the score\<close>

lemma window_cut_max:
  assumes w: "withinWindow a b x e" and ab: "a < b" and me: "me \<le> a" and cut: "b \<le> max a e"
  shows "withinWindow a b (max me (max x rest)) (max me e)"
proof -
  from ab cut have be: "b \<le> e" by (auto simp: le_max_iff_disj)
  with w have ex: "e \<le> x" by (simp add: withinWindow_def)
  from me ab be have "me \<le> e" by order
  then have mee: "max me e = e" by (auto simp: max_def)
  have "e \<le> max me (max x rest)" using ex by (simp add: le_max_iff_disj)
  moreover have "\<not> e \<le> a" "\<not> e < b" using ab be by auto
  ultimately show ?thesis unfolding mee withinWindow_def by simp
qed

lemma window_step_max:
  assumes w: "withinWindow a b x e" and ab: "a < b" and me: "me \<le> a"
    and nc: "\<not> b \<le> max a e"
    and ih: "withinWindow (max a e) b (max (max me e) rest) r"
  shows "withinWindow a b (max me (max x rest)) r"
proof (cases "e \<le> a")
  case True
  then have A: "max a e = a" by (auto simp: max_def)
  from w True have xe: "x \<le> e" by (simp add: withinWindow_def)
  show ?thesis
  proof (cases "rest \<le> a")
    case True
    have v': "max (max me e) rest \<le> a" using me \<open>e \<le> a\<close> True by simp
    have vv: "max me (max x rest) \<le> max (max me e) rest"
      using xe by (auto simp: le_max_iff_disj)
    from ih v' ab have "r \<le> a \<and> max (max me e) rest \<le> r"
      unfolding A withinWindow_def by (metis leI order.trans)
    then have "r \<le> a" and "max me (max x rest) \<le> r"
      using order_trans [OF vv] by blast+
    with ab show ?thesis unfolding withinWindow_def by auto
  next
    case False
    then have ar: "a < rest" by simp
    have "max (max me e) rest = rest" using me \<open>e \<le> a\<close> ar by (auto simp: max_def)
    moreover have "max me (max x rest) = rest" using me xe \<open>e \<le> a\<close> ar by (auto simp: max_def)
    ultimately show ?thesis using ih unfolding A by simp
  qed
next
  case False
  then have ae: "a < e" by simp
  from nc have eb: "e < b" by (auto simp: le_max_iff_disj)
  from w ae eb have ex: "e = x" by (simp add: withinWindow_def)
  have A: "max a e = e" using ae by (auto simp: max_def)
  have M: "max me e = e" using me ae by (auto simp: max_def)
  have V: "max me (max x rest) = max e rest" using me ae ex by (auto simp: max_def)
  define v where "v = max e rest"
  have ev: "e \<le> v" by (simp add: v_def)
  from ih have ih': "withinWindow e b v r" unfolding A M v_def .
  show ?thesis unfolding V v_def [symmetric]
    using ih' ev ae eb unfolding withinWindow_def by auto
qed


lemma window_cut_min:
  assumes w: "withinWindow a b x e" and ab: "a < b" and mi: "b \<le> mi" and cut: "min b e \<le> a"
  shows "withinWindow a b (min mi (min x rest)) (min mi e)"
proof -
  from ab cut have ea: "e \<le> a" by (auto simp: min_le_iff_disj)
  with w have xe: "x \<le> e" by (simp add: withinWindow_def)
  from mi ab ea have "e \<le> mi" by order
  then have mie: "min mi e = e" by (auto simp: min_def)
  have "min mi (min x rest) \<le> e" using xe by (simp add: min_le_iff_disj)
  moreover have "\<not> b \<le> e" "\<not> a < e" using ab ea by auto
  ultimately show ?thesis unfolding mie withinWindow_def by simp
qed

lemma window_step_min:
  assumes w: "withinWindow a b x e" and ab: "a < b" and mi: "b \<le> mi"
    and nc: "\<not> min b e \<le> a"
    and ih: "withinWindow a (min b e) (min (min mi e) rest) r"
  shows "withinWindow a b (min mi (min x rest)) r"
proof (cases "b \<le> e")
  case True
  then have B: "min b e = b" by (auto simp: min_def)
  from w True have ex: "e \<le> x" by (simp add: withinWindow_def)
  show ?thesis
  proof (cases "b \<le> rest")
    case True
    have v': "b \<le> min (min mi e) rest" using mi \<open>b \<le> e\<close> True by simp
    have vv: "min (min mi e) rest \<le> min mi (min x rest)"
      using ex by (auto simp: min_le_iff_disj)
    from ih v' ab have "b \<le> r \<and> r \<le> min (min mi e) rest"
      unfolding B withinWindow_def by (metis leI order.trans)
    then have "b \<le> r" and "r \<le> min mi (min x rest)"
      using order_trans [OF _ vv] by blast+
    with ab show ?thesis unfolding withinWindow_def by auto
  next
    case False
    then have rb: "rest < b" by simp
    have "min (min mi e) rest = rest" using mi \<open>b \<le> e\<close> rb by (auto simp: min_def)
    moreover have "min mi (min x rest) = rest" using mi ex \<open>b \<le> e\<close> rb by (auto simp: min_def)
    ultimately show ?thesis using ih unfolding B by simp
  qed
next
  case False
  then have eb: "e < b" by simp
  from nc have ae: "a < e" by (auto simp: min_le_iff_disj)
  from w ae eb have ex: "e = x" by (simp add: withinWindow_def)
  have B: "min b e = e" using eb by (auto simp: min_def)
  have M: "min mi e = e" using mi eb by (auto simp: min_def)
  have V: "min mi (min x rest) = min e rest" using mi eb ex by (auto simp: min_def)
  define v where "v = min e rest"
  have ev: "v \<le> e" by (simp add: v_def)
  from ih have ih': "withinWindow a e v r" unfolding B M v_def .
  show ?thesis unfolding V v_def [symmetric]
    using ih' ev ae eb unfolding withinWindow_def by auto
qed

lemma PosInf_greatest [simp]: "(x::score) \<le> PosInf"
  by (cases x) simp_all

lemma max_NegInf [simp]: "max NegInf (x::score) = x" "max x NegInf = x"
  by (cases x; simp add: max_def)+

lemma min_PosInf [simp]: "min PosInf (x::score) = x" "min x PosInf = x"
  by (cases x; simp add: min_def)+

lemma foldl_max_acc:
  "foldl (\<lambda>best m. max (f m) best) (max x y) ms = max x (foldl (\<lambda>best m. max (f m) best) y ms)"
  for x y :: score
  by (induction ms arbitrary: y) (simp_all add: max.left_commute)

lemma foldl_min_acc:
  "foldl (\<lambda>best m. min (f m) best) (min x y) ms = min x (foldl (\<lambda>best m. min (f m) best) y ms)"
  for x y :: score
  by (induction ms arbitrary: y) (simp_all add: min.left_commute)

lemma foldl_max_Cons:
  "foldl (\<lambda>best m. max (f m) best) NegInf (m # ms)
     = max (f m) (foldl (\<lambda>best m. max (f m) best) NegInf ms)"
  using foldl_max_acc [of f "f m" NegInf ms] by simp

lemma foldl_min_Cons:
  "foldl (\<lambda>best m. min (f m) best) PosInf (m # ms)
     = min (f m) (foldl (\<lambda>best m. min (f m) best) PosInf ms)"
  using foldl_min_acc [of f "f m" PosInf ms] by simp

lemma maxLoop_window:
  assumes "\<And>m a b. m \<in> set ms \<Longrightarrow> a < b \<Longrightarrow> withinWindow a b (val m) (ev a b m)"
    and "alpha < beta" and "maxEval \<le> alpha"
  shows "withinWindow alpha beta (max maxEval (foldl (\<lambda>best m. max (val m) best) NegInf ms))
           (maxLoop ev maxEval alpha beta ms)"
  using assms
proof (induction ms arbitrary: maxEval alpha)
  case Nil
  then show ?case by (simp add: withinWindow_def)
next
  case (Cons m ms)
  let ?e = "ev alpha beta m"
  have e: "withinWindow alpha beta (val m) ?e"
    using Cons.prems by simp
  show ?case
  proof (cases "beta \<le> max alpha ?e")
    case True
    then show ?thesis
      unfolding foldl_max_Cons
      using window_cut_max [OF e Cons.prems(2,3) True] by (simp add: Let_def)
  next
    case False
    have IH: "withinWindow (max alpha ?e) beta
               (max (max maxEval ?e) (foldl (\<lambda>best m. max (val m) best) NegInf ms))
               (maxLoop ev (max maxEval ?e) (max alpha ?e) beta ms)"
    proof (rule Cons.IH)
      show "max alpha ?e < beta" using False by (simp add: not_le)
      show "max maxEval ?e \<le> max alpha ?e" using Cons.prems(3) by (simp add: max.coboundedI1)
      show "\<And>m a b. m \<in> set ms \<Longrightarrow> a < b \<Longrightarrow> withinWindow a b (val m) (ev a b m)"
        using Cons.prems(1) by simp
    qed
    show ?thesis
      unfolding foldl_max_Cons
      using window_step_max [OF e Cons.prems(2,3) False IH] False by (simp add: Let_def)
  qed
qed

lemma minLoop_window:
  assumes "\<And>m a b. m \<in> set ms \<Longrightarrow> a < b \<Longrightarrow> withinWindow a b (val m) (ev a b m)"
    and "alpha < beta" and "beta \<le> minEval"
  shows "withinWindow alpha beta (min minEval (foldl (\<lambda>best m. min (val m) best) PosInf ms))
           (minLoop ev minEval alpha beta ms)"
  using assms
proof (induction ms arbitrary: minEval beta)
  case Nil
  then show ?case by (simp add: withinWindow_def)
next
  case (Cons m ms)
  let ?e = "ev alpha beta m"
  have e: "withinWindow alpha beta (val m) ?e"
    using Cons.prems by simp
  show ?case
  proof (cases "min beta ?e \<le> alpha")
    case True
    then show ?thesis
      unfolding foldl_min_Cons
      using window_cut_min [OF e Cons.prems(2,3) True] by (simp add: Let_def)
  next
    case False
    have IH: "withinWindow alpha (min beta ?e)
               (min (min minEval ?e) (foldl (\<lambda>best m. min (val m) best) PosInf ms))
               (minLoop ev (min minEval ?e) alpha (min beta ?e) ms)"
    proof (rule Cons.IH)
      show "alpha < min beta ?e" using False by (simp add: not_le)
      show "min beta ?e \<le> min minEval ?e" using Cons.prems(3) by (simp add: min.coboundedI1)
      show "\<And>m a b. m \<in> set ms \<Longrightarrow> a < b \<Longrightarrow> withinWindow a b (val m) (ev a b m)"
        using Cons.prems(1) by simp
    qed
    show ?thesis
      unfolding foldl_min_Cons
      using window_step_min [OF e Cons.prems(2,3) False IH] False by (simp add: Let_def)
  qed
qed

declare minimax.simps [simp del] minimaxAlphaBeta.simps [simp del]

lemma alphaBeta_window:
  "alpha < beta \<Longrightarrow>
     withinWindow alpha beta (minimax ai board depth isMaximizing)
       (minimaxAlphaBeta ai board depth alpha beta isMaximizing)"
proof (induction ai board depth alpha beta isMaximizing rule: minimaxAlphaBeta.induct)
  case (1 ai board depth alpha beta isMaximizing)
  show ?case
  proof (cases "getWinner board = Some (player ai) \<or> getWinner board = Some (opponent ai)
                \<or> isBoardFull board")
    case True
    then have "minimaxAlphaBeta ai board depth alpha beta isMaximizing
                 = minimax ai board depth isMaximizing"
      by (auto simp: minimax.simps [of ai board] minimaxAlphaBeta.simps [of ai board])
    then show ?thesis by (simp add: withinWindow_def)
  next
    case False
    show ?thesis
    proof (cases isMaximizing)
      case True
      have "withinWindow alpha beta
              (max NegInf (foldl (\<lambda>best m. max (minimax ai (makeMove board m (player ai))
                                                    (depth + 1) False) best)
                 NegInf (getAvailableMoves board)))
              (maxLoop (\<lambda>a b move. minimaxAlphaBeta ai (makeMove board move (player ai))
                                      (depth + 1) a b False)
                 NegInf alpha beta (getAvailableMoves board))"
        using "1.IH"(1) False True "1.prems"
        by (intro maxLoop_window) auto
      then show ?thesis
        using False True
        by (simp add: minimax.simps [of ai board] minimaxAlphaBeta.simps [of ai board])
    next
      case isMin: False
      have "withinWindow alpha beta
              (min PosInf (foldl (\<lambda>best m. min (minimax ai (makeMove board m (opponent ai))
                                                    (depth + 1) True) best)
                 PosInf (getAvailableMoves board)))
              (minLoop (\<lambda>a b move. minimaxAlphaBeta ai (makeMove board move (opponent ai))
                                      (depth + 1) a b True)
                 PosInf alpha beta (getAvailableMoves board))"
        using "1.IH"(2) False isMin "1.prems"
        by (intro minLoop_window) auto
      then show ?thesis
        using False isMin
        by (simp add: minimax.simps [of ai board] minimaxAlphaBeta.simps [of ai board])
    qed
  qed
qed

lemma alphaBeta_full_window:
  "minimaxAlphaBeta ai board depth NegInf PosInf isMaximizing = minimax ai board depth isMaximizing"
proof -
  have lt: "NegInf < PosInf" by (simp add: less_score_def)
  let ?r = "minimaxAlphaBeta ai board depth NegInf PosInf isMaximizing"
  let ?v = "minimax ai board depth isMaximizing"
  from alphaBeta_window [OF lt, of ai board depth isMaximizing]
  have w: "withinWindow NegInf PosInf ?v ?r" .
  show ?thesis
  proof (cases ?r)
    case NegInf
    with w have "?v \<le> NegInf" by (simp add: withinWindow_def)
    then have "?v = NegInf" by (cases ?v) simp_all
    with NegInf show ?thesis by simp
  next
    case (Fin n)
    with w show ?thesis by (simp add: withinWindow_def less_score_def)
  next
    case PosInf
    with w have "PosInf \<le> ?v" by (simp add: withinWindow_def)
    then have "?v = PosInf" by (cases ?v) simp_all
    with PosInf show ?thesis by simp
  qed
qed

text \<open>
  C1. For every board, every depth and every maximizing flag, \<open>minimax\<close> and
  \<open>minimaxAlphaBeta\<close> started with the window \<open>(-Infinity, +Infinity)\<close> return the same
  score: pruning never changes the result. It holds for every board, reachable or not.
\<close>

theorem minimax_eq_minimaxAlphaBeta:
  "minimax ai board depth isMaximizing
     = minimaxAlphaBeta ai board depth NegInf PosInf isMaximizing"
  by (rule alphaBeta_full_window [symmetric])

theorem minimax_eq_minimaxAlphaBeta_witness:
  "minimaxAlphaBeta (newAI PlayerX Expert)
     [[Some PlayerX, Some PlayerO, Some PlayerX],
      [None, Some PlayerO, None],
      [None, None, Some PlayerO]] 0 NegInf PosInf True = Fin 0"
proof -
  have "minimax (newAI PlayerX Expert)
     [[Some PlayerX, Some PlayerO, Some PlayerX],
      [None, Some PlayerO, None],
      [None, None, Some PlayerO]] 0 True = Fin 0"
    by code_simp
  then show ?thesis
    using minimax_eq_minimaxAlphaBeta [of "newAI PlayerX Expert"
       "[[Some PlayerX, Some PlayerO, Some PlayerX],
         [None, Some PlayerO, None],
         [None, None, Some PlayerO]]" 0 True]
    by simp
qed

subsection \<open>Every tier answers with an available move\<close>

lemma getAvailableMoves_iff:
  "m \<in> set (getAvailableMoves board) \<longleftrightarrow>
     row m < 3 \<and> col m < 3 \<and> cellAt board (row m) (col m) = Some None"
proof
  assume "m \<in> set (getAvailableMoves board)"
  then show "row m < 3 \<and> col m < 3 \<and> cellAt board (row m) (col m) = Some None"
    using getAvailableMoves_null by blast
next
  assume a: "row m < 3 \<and> col m < 3 \<and> cellAt board (row m) (col m) = Some None"
  then have "m = \<lparr>row = row m, col = col m\<rparr>" by simp
  moreover have "row m \<in> {0, 1, 2}" "col m \<in> {0, 1, 2}" using a by auto
  ultimately have "m \<in> set (concat (map (\<lambda>r. map (\<lambda>c. \<lparr>row = r, col = c\<rparr>) [0..<3]) [0..<3]))"
    by (auto simp: upt_rec numeral_eq_Suc)
  with a show "m \<in> set (getAvailableMoves board)"
    unfolding getAvailableMoves_filter by simp
qed

lemma randomIndex_less:
  assumes "0 \<le> rnd" "rnd < 1" "0 < n"
  shows "randomIndex rnd n < n"
proof -
  have "rnd * real n < real n" using assms by simp
  then have "\<lfloor>rnd * real n\<rfloor> < int n" by (simp add: floor_less_iff)
  moreover have "0 \<le> \<lfloor>rnd * real n\<rfloor>" using assms by simp
  ultimately show ?thesis unfolding randomIndex_def by linarith
qed

lemma getRandomMove_available:
  assumes "0 \<le> rnd" "rnd < 1" "availableMoves \<noteq> []"
  shows "position (getRandomMove rnd board availableMoves) \<in> set availableMoves"
proof -
  define cc where "cc = filter (\<lambda>move.
            (row move = 1 \<and> col move = 1)
            \<or> ((row move = 0 \<or> row move = 2) \<and> (col move = 0 \<or> col move = 2))) availableMoves"
  define pm where "pm = (if length cc > 0 then cc else availableMoves)"
  have sub: "set pm \<subseteq> set availableMoves" by (auto simp: pm_def cc_def)
  have "0 < length pm" using assms(3) by (auto simp: pm_def)
  then have "pm ! randomIndex rnd (length pm) \<in> set pm"
    using randomIndex_less [OF assms(1,2)] by simp
  moreover have "position (getRandomMove rnd board availableMoves)
                   = pm ! randomIndex rnd (length pm)"
    unfolding getRandomMove_def Let_def pm_def cc_def by simp
  ultimately show ?thesis using sub by auto
qed

lemma getMediumMove_available:
  assumes "0 \<le> rnd" "rnd < 1" "getAvailableMoves board \<noteq> []"
  shows "position (getMediumMove ai rnd board (getAvailableMoves board))
           \<in> set (getAvailableMoves board)"
proof -
  let ?ms = "getAvailableMoves board"
  let ?corners = "filter (\<lambda>pos. cellAt board (row pos) (col pos) = Some None)
                  [\<lparr>row = 0, col = 0\<rparr>, \<lparr>row = 0, col = 2\<rparr>,
                   \<lparr>row = 2, col = 0\<rparr>, \<lparr>row = 2, col = 2\<rparr>]"
  have corners: "set ?corners \<subseteq> set ?ms"
    by (auto simp: getAvailableMoves_iff)
  have pick: "0 < length ?corners \<Longrightarrow> ?corners ! randomIndex rnd (length ?corners) \<in> set ?ms"
    using randomIndex_less [OF assms(1,2)] corners nth_mem by blast
  have centre: "cellAt board 1 1 = Some None \<Longrightarrow> \<lparr>row = 1, col = 1\<rparr> \<in> set ?ms"
    by (simp add: getAvailableMoves_iff)
  show ?thesis
    unfolding getMediumMove_def Let_def
    using pick centre getRandomMove_available [OF assms(1,2,3), of board]
    by (auto split: option.splits dest: find_Some_iff [THEN iffD1] simp: in_set_conv_nth)
qed

lemma selectBest_fold_mem:
  "fst (foldl (\<lambda>(bestMove, bestScore) move.
              if scoreOf move > bestScore then (move, scoreOf move) else (bestMove, bestScore))
         (m0, s0) ms) \<in> insert m0 (set ms)"
  by (induction ms arbitrary: m0 s0) auto

lemma selectBest_available:
  "availableMoves \<noteq> [] \<Longrightarrow> fst (selectBest scoreOf availableMoves) \<in> set availableMoves"
  using selectBest_fold_mem [of scoreOf "hd availableMoves" NegInf availableMoves]
  by (auto simp: selectBest_def)

lemma getPatternMove_available:
  "getAvailableMoves board \<noteq> [] \<Longrightarrow> getPatternMove ai board = Some pm \<Longrightarrow>
     position pm \<in> set (getAvailableMoves board)"
  by (auto simp: getPatternMove_def split: option.splits if_splits)

lemma getBestMove_available:
  assumes "getAvailableMoves board \<noteq> []" "0 \<le> rnd" "rnd < 1"
  shows "\<exists>move ai'. getBestMove ai rnd board = Inr (move, ai')
           \<and> position move \<in> set (getAvailableMoves board)"
proof (cases "difficulty ai")
  case Easy
  then show ?thesis
    using assms getRandomMove_available [OF assms(2,3,1), of board]
    by (simp add: getBestMove_def Let_def)
next
  case Medium
  then show ?thesis
    using assms getMediumMove_available [OF assms(2,3,1), of ai]
    by (simp add: getBestMove_def Let_def)
next
  case Hard
  then show ?thesis
    using assms(1) selectBest_available [OF assms(1)]
    by (simp add: getBestMove_def getHardMove_def split_beta Let_def)
next
  case Expert
  then show ?thesis
    using assms(1) selectBest_available [OF assms(1)]
    by (simp add: getBestMove_def getExpertMove_def split_beta Let_def)
next
  case Impossible
  show ?thesis
  proof (cases "getPatternMove ai board")
    case None
    then show ?thesis
      using Impossible assms(1) selectBest_available [OF assms(1)]
      by (simp add: getBestMove_def getImpossibleMove_def split_beta Let_def)
  next
    case (Some pm)
    then show ?thesis
      using Impossible assms(1) getPatternMove_available [OF assms(1) Some]
      by (simp add: getBestMove_def getImpossibleMove_def Let_def)
  qed
qed

text \<open>
  C2. On a board with at least one legal move \<open>getBestMove\<close> returns a move, whatever the
  difficulty of the engine; on a board with none it throws, whatever the difficulty. The
  code throws a plain \<open>Error\<close> with the message \<open>No available moves\<close>, which is the
  validation error of the specification.
\<close>

theorem getBestMove_move_or_error:
  assumes "wf_board board"
  shows "(getAvailableMoves board \<noteq> [] \<longrightarrow>
            (\<exists>move ai'. getBestMove ai rnd board = Inr (move, ai')))
       \<and> (getAvailableMoves board = [] \<longrightarrow>
            getBestMove ai rnd board = Inl (Error ''No available moves''))"
  by (cases "difficulty ai") (simp_all add: getBestMove_def Let_def)

theorem getBestMove_move_or_error_witness:
  "(\<exists>move ai'. getBestMove (newAI PlayerO Medium) (1 / 2)
       [[Some PlayerX, None, None], [None, None, None], [None, None, None]] = Inr (move, ai'))
   \<and> getBestMove (newAI PlayerX Impossible) (1 / 2)
       [[Some PlayerX, Some PlayerO, Some PlayerX],
        [Some PlayerX, Some PlayerO, Some PlayerO],
        [Some PlayerO, Some PlayerX, Some PlayerX]] = Inl (Error ''No available moves'')"
proof -
  have a: "wf_board [[Some PlayerX, None, None], [None, None, None], [None, None, None]]"
    and b: "getAvailableMoves [[Some PlayerX, None, None], [None, None, None], [None, None, None]]
              \<noteq> []"
    and c: "wf_board [[Some PlayerX, Some PlayerO, Some PlayerX],
        [Some PlayerX, Some PlayerO, Some PlayerO],
        [Some PlayerO, Some PlayerX, Some PlayerX]]"
    and d: "getAvailableMoves [[Some PlayerX, Some PlayerO, Some PlayerX],
        [Some PlayerX, Some PlayerO, Some PlayerO],
        [Some PlayerO, Some PlayerX, Some PlayerX]] = []"
    by code_simp+
  show ?thesis
    using getBestMove_move_or_error [OF a, of "newAI PlayerO Medium" "1 / 2"]
      getBestMove_move_or_error [OF c, of "newAI PlayerX Impossible" "1 / 2"] b d
    by simp
qed

text \<open>
  C10. On a board with at least one legal move, at every difficulty, the position of the
  move \<open>getBestMove\<close> returns has row and column in \<open>[0, 2]\<close> and names a cell of the input
  board that is \<open>null\<close>. \<open>rnd\<close> is the draw of \<open>Math.random()\<close>, a number in \<open>[0, 1)\<close>.
\<close>

theorem getBestMove_position_empty:
  assumes "wf_board board" and "getAvailableMoves board \<noteq> []" and "0 \<le> rnd" and "rnd < 1"
  shows "\<exists>move ai'. getBestMove ai rnd board = Inr (move, ai')
           \<and> row (position move) \<le> 2 \<and> col (position move) \<le> 2
           \<and> board ! row (position move) ! col (position move) = None"
proof -
  from getBestMove_available [OF assms(2,3,4), of ai]
  obtain move ai' where r: "getBestMove ai rnd board = Inr (move, ai')"
    and m: "position move \<in> set (getAvailableMoves board)" by blast
  from getAvailableMoves_null [OF m]
  have "row (position move) \<le> 2" "col (position move) \<le> 2"
    "board ! row (position move) ! col (position move) = None"
    by (auto simp: cellAt_def split: if_splits)
  with r show ?thesis by blast
qed

theorem getBestMove_position_empty_witness:
  "\<exists>move ai'. getBestMove (newAI PlayerO Easy) (3 / 4)
       [[Some PlayerX, None, None], [None, None, None], [None, None, None]] = Inr (move, ai')
     \<and> row (position move) \<le> 2 \<and> col (position move) \<le> 2
     \<and> [[Some PlayerX, None, None], [None, None, None], [None, None, None]]
          ! row (position move) ! col (position move) = None"
proof -
  have a: "wf_board [[Some PlayerX, None, None], [None, None, None], [None, None, None]]"
    and b: "getAvailableMoves [[Some PlayerX, None, None], [None, None, None], [None, None, None]]
              \<noteq> []"
    by code_simp+
  show ?thesis
    by (rule getBestMove_position_empty [OF a b]) simp_all
qed

subsection \<open>Bounds on the scores of the search\<close>

lemma wf_board_makeMove: "wf_board board \<Longrightarrow> wf_board (makeMove board m p)"
proof -
  assume wf: "wf_board board"
  have "length ((makeMove board m p) ! n) = 3" if "n < 3" for n
  proof (cases "n = row m")
    case True
    then show ?thesis using wf that by (simp add: wf_board_def makeMove_def list_all_length)
  next
    case False
    then show ?thesis using wf that by (simp add: wf_board_def makeMove_def list_all_length)
  qed
  then show ?thesis using wf by (simp add: wf_board_def makeMove_def list_all_length)
qed

lemma wf_board_cells:
  assumes "wf_board board"
  obtains c00 c01 c02 c10 c11 c12 c20 c21 c22
  where "board = [[c00, c01, c02], [c10, c11, c12], [c20, c21, c22]]"
proof -
  from assms obtain r0 r1 r2 where b: "board = [r0, r1, r2]"
    by (auto simp: wf_board_def length_Suc_conv numeral_3_eq_3)
  with assms have "length r0 = 3" "length r1 = 3" "length r2 = 3"
    by (simp_all add: wf_board_def)
  then obtain c00 c01 c02 c10 c11 c12 c20 c21 c22
    where "r0 = [c00, c01, c02]" "r1 = [c10, c11, c12]" "r2 = [c20, c21, c22]"
    by (auto simp: length_Suc_conv numeral_3_eq_3)
  with b that show ?thesis by blast
qed

lemma not_full_has_move:
  assumes "wf_board board" "\<not> isBoardFull board"
  shows "getAvailableMoves board \<noteq> []"
proof -
  from assms(1) obtain c00 c01 c02 c10 c11 c12 c20 c21 c22
    where b: "board = [[c00, c01, c02], [c10, c11, c12], [c20, c21, c22]]"
    by (rule wf_board_cells)
  show ?thesis
    using assms(2) unfolding b
    by (auto simp: isBoardFull_def getAvailableMoves_def cellAt_def upt_rec numeral_eq_Suc)
qed

lemma getAvailableMoves_length: "length (getAvailableMoves board) \<le> 9"
proof -
  have "length (getAvailableMoves board)
          \<le> length (concat (map (\<lambda>r. map (\<lambda>c. \<lparr>row = r, col = c\<rparr>) [0..<3]) [0..<3]))"
    unfolding getAvailableMoves_filter by (rule length_filter_le)
  also have "\<dots> = 9" by (simp add: upt_rec numeral_eq_Suc)
  finally show ?thesis .
qed

lemma foldl_max_le:
  assumes "\<And>m. m \<in> set ms \<Longrightarrow> f m \<le> (u::score)" and "x \<le> u"
  shows "foldl (\<lambda>best m. max (f m) best) x ms \<le> u"
  using assms by (induction ms arbitrary: x) simp_all

lemma foldl_min_le:
  assumes "m \<in> set ms" and "f m \<le> (u::score)"
  shows "foldl (\<lambda>best m. min (f m) best) x ms \<le> u"
proof -
  have mono: "\<And>y. y \<le> u \<Longrightarrow> foldl (\<lambda>best m. min (f m) best) y ms \<le> u" for ms
    by (induction ms) (simp_all add: min.coboundedI2)
  show ?thesis using assms
  proof (induction ms arbitrary: x)
    case Nil
    then show ?case by simp
  next
    case (Cons a ms)
    show ?case
    proof (cases "m = a")
      case True
      then show ?thesis using Cons.prems(2) by (simp add: mono min.coboundedI1)
    next
      case False
      then show ?thesis using Cons by simp
    qed
  qed
qed

text \<open>No score exceeds \<open>10 - depth\<close>.\<close>

lemma minimax_upper:
  "wf_board board \<Longrightarrow> depth + int (length (getAvailableMoves board)) \<le> 10 \<Longrightarrow>
     minimax ai board depth isMaximizing \<le> Fin (10 - depth)"
proof (induction ai board depth isMaximizing rule: minimax.induct)
  case (1 ai board depth isMaximizing)
  have d: "depth \<le> 10" using "1.prems"(2) by linarith
  show ?case
  proof (cases "getWinner board = Some (player ai) \<or> getWinner board = Some (opponent ai)
                \<or> isBoardFull board")
    case True
    then show ?thesis using d by (auto simp: minimax.simps [of ai board])
  next
    case False
    have child: "depth + 1 + int (length (getAvailableMoves (makeMove board m p))) \<le> 10"
      if "m \<in> set (getAvailableMoves board)" for m p
      using makeMove_fewer [OF that, of p] "1.prems"(2) by linarith
    show ?thesis
    proof (cases isMaximizing)
      case True
      have "minimax ai (makeMove board m (player ai)) (depth + 1) False \<le> Fin (10 - depth)"
        if "m \<in> set (getAvailableMoves board)" for m
      proof -
        have "minimax ai (makeMove board m (player ai)) (depth + 1) False
                \<le> Fin (10 - (depth + 1))"
          using "1.IH"(1) False True that wf_board_makeMove [OF "1.prems"(1)] child [OF that]
          by simp
        also have "\<dots> \<le> Fin (10 - depth)" by simp
        finally show ?thesis .
      qed
      then have "foldl (\<lambda>bestScore move.
                 max (minimax ai (makeMove board move (player ai)) (depth + 1) False) bestScore)
          NegInf (getAvailableMoves board) \<le> Fin (10 - depth)"
        by (intro foldl_max_le) simp_all
      then show ?thesis using False True by (simp add: minimax.simps [of ai board])
    next
      case isMin: False
      from not_full_has_move [OF "1.prems"(1)] False
      obtain m where m: "m \<in> set (getAvailableMoves board)"
        by (cases "getAvailableMoves board") auto
      have "minimax ai (makeMove board m (opponent ai)) (depth + 1) True
                \<le> Fin (10 - (depth + 1))"
        using "1.IH"(2) False isMin m wf_board_makeMove [OF "1.prems"(1)] child [OF m]
        by simp
      also have "\<dots> \<le> Fin (10 - depth)" by simp
      finally have "foldl (\<lambda>bestScore move.
                 min (minimax ai (makeMove board move (opponent ai)) (depth + 1) True) bestScore)
          PosInf (getAvailableMoves board) \<le> Fin (10 - depth)"
        by (rule foldl_min_le [OF m])
      then show ?thesis using False isMin by (simp add: minimax.simps [of ai board])
    qed
  qed
qed

lemma cellAt_other_mark:
  assumes "cellAt board (row m) (col m) = Some None" and "p \<noteq> q"
  shows "(cellAt (makeMove board m q) r c = Some (Some p)) = (cellAt board r c = Some (Some p))"
  using assms by (auto simp: cellAt_makeMove [OF assms(1)])

lemma cellAt_kept:
  assumes "cellAt board (row m) (col m) = Some None" and "cellAt board r c = Some (Some p)"
  shows "cellAt (makeMove board m q) r c = Some (Some p)"
  using assms by (auto simp: cellAt_makeMove [OF assms(1)])

lemma checkWin_other_mark:
  assumes "cellAt board (row m) (col m) = Some None" and "p \<noteq> q"
  shows "checkWin (makeMove board m q) p \<longleftrightarrow> checkWin board p"
  by (simp add: checkWin_def cellAt_other_mark [OF assms])

lemma checkWin_kept:
  assumes "cellAt board (row m) (col m) = Some None" and "checkWin board p"
  shows "checkWin (makeMove board m q) p"
  using assms(2) cellAt_kept [OF assms(1), of _ _ p q]
  unfolding checkWin_def list_ex_iff by blast

lemma getWinner_after_other:
  assumes null: "cellAt board (row m) (col m) = Some None" and pq: "p \<noteq> q"
    and win: "getWinner (makeMove board m q) = Some p"
  shows "getWinner board = Some p"
proof -
  have q: "\<not> checkWin board q" if "\<not> checkWin (makeMove board m q) q"
    using that checkWin_kept [OF null] by blast
  show ?thesis
    using win pq checkWin_other_mark [OF null pq] q
    by (cases p; cases q) (auto simp: getWinner_def split: if_splits)
qed

lemma nonwin_upper:
  assumes wf: "wf_board board" and len: "depth + int (length (getAvailableMoves board)) \<le> 10"
    and d: "depth \<le> 9" and nw: "getWinner board \<noteq> Some (player ai)"
  shows "minimax ai board depth isMaximizing \<le> Fin (9 - depth)"
proof (cases "getWinner board = Some (opponent ai) \<or> isBoardFull board")
  case True
  then show ?thesis using nw d by (auto simp: minimax.simps [of ai board])
next
  case False
  have child: "minimax ai (makeMove board m p) (depth + 1) b \<le> Fin (9 - depth)"
    if "m \<in> set (getAvailableMoves board)" for m p b
  proof -
    have "depth + 1 + int (length (getAvailableMoves (makeMove board m p))) \<le> 10"
      using makeMove_fewer [OF that, of p] len by linarith
    from minimax_upper [OF wf_board_makeMove [OF wf] this, of ai b]
    show ?thesis by (simp add: algebra_simps)
  qed
  show ?thesis
  proof (cases isMaximizing)
    case True
    have "foldl (\<lambda>bestScore move.
                 max (minimax ai (makeMove board move (player ai)) (depth + 1) False) bestScore)
          NegInf (getAvailableMoves board) \<le> Fin (9 - depth)"
      by (intro foldl_max_le child) simp_all
    then show ?thesis using False True nw by (simp add: minimax.simps [of ai board])
  next
    case isMin: False
    from not_full_has_move [OF wf] False
    obtain m where m: "m \<in> set (getAvailableMoves board)"
      by (cases "getAvailableMoves board") auto
    have "foldl (\<lambda>bestScore move.
                 min (minimax ai (makeMove board move (opponent ai)) (depth + 1) True) bestScore)
          PosInf (getAvailableMoves board) \<le> Fin (9 - depth)"
      using foldl_min_le [OF m, of "\<lambda>move. minimax ai (makeMove board move (opponent ai))
          (depth + 1) True" "Fin (9 - depth)" PosInf] child [OF m, of "opponent ai" True]
      by simp
    then show ?thesis using False isMin nw by (simp add: minimax.simps [of ai board])
  qed
qed

text \<open>A move that does not win at once scores at most 9.\<close>

lemma nonwinning_move_9:
  assumes wf: "wf_board board" and m: "m \<in> set (getAvailableMoves board)"
    and nw: "getWinner (makeMove board m (player ai)) \<noteq> Some (player ai)"
  shows "minimax ai (makeMove board m (player ai)) 0 False \<le> Fin 9"
proof -
  have "0 + int (length (getAvailableMoves (makeMove board m (player ai)))) \<le> 10"
    using makeMove_fewer [OF m, of "player ai"] getAvailableMoves_length [of board] by linarith
  from nonwin_upper [OF wf_board_makeMove [OF wf] this _ nw, of False]
  show ?thesis by simp
qed

text \<open>With two distinct marks it scores at most 8: the opponent's reply cannot win for the
  player, so the earliest win is two plies further down.\<close>

lemma nonwinning_move_8:
  assumes wf: "wf_board board" and m: "m \<in> set (getAvailableMoves board)"
    and nw: "getWinner (makeMove board m (player ai)) \<noteq> Some (player ai)"
    and marks: "opponent ai \<noteq> player ai"
  shows "minimax ai (makeMove board m (player ai)) 0 False \<le> Fin 8"
proof -
  let ?tb = "makeMove board m (player ai)"
  have wftb: "wf_board ?tb" by (rule wf_board_makeMove [OF wf])
  have lentb: "length (getAvailableMoves ?tb) \<le> 8"
    using makeMove_fewer [OF m, of "player ai"] getAvailableMoves_length [of board] by linarith
  show ?thesis
  proof (cases "getWinner ?tb = Some (opponent ai) \<or> isBoardFull ?tb")
    case True
    then show ?thesis using nw by (auto simp: minimax.simps [of ai ?tb])
  next
    case False
    from not_full_has_move [OF wftb] False
    obtain m' where m': "m' \<in> set (getAvailableMoves ?tb)"
      by (cases "getAvailableMoves ?tb") auto
    let ?c = "makeMove ?tb m' (opponent ai)"
    have null: "cellAt ?tb (row m') (col m') = Some None"
      using getAvailableMoves_null [OF m'] by simp
    have nwc: "getWinner ?c \<noteq> Some (player ai)"
      using getWinner_after_other [OF null, of "player ai" "opponent ai"] marks nw by auto
    have "1 + int (length (getAvailableMoves ?c)) \<le> 10"
      using makeMove_fewer [OF m', of "opponent ai"] lentb by linarith
    from nonwin_upper [OF wf_board_makeMove [OF wftb] this _ nwc, of True]
    have "minimax ai ?c (0 + 1) True \<le> Fin 8" by simp
    then have "foldl (\<lambda>bestScore move.
                 min (minimax ai (makeMove ?tb move (opponent ai)) (0 + 1) True) bestScore)
          PosInf (getAvailableMoves ?tb) \<le> Fin 8"
      by (rule foldl_min_le [OF m'])
    then show ?thesis using False nw by (simp add: minimax.simps [of ai ?tb])
  qed
qed

lemma winning_move_10:
  "getWinner (makeMove board w (player ai)) = Some (player ai) \<Longrightarrow>
     minimax ai (makeMove board w (player ai)) 0 False = Fin 10"
  by (simp add: minimax.simps [of ai "makeMove board w (player ai)"])

subsection \<open>The selection loop\<close>

lemma selectBest_fold:
  fixes scoreOf :: "Position \<Rightarrow> score"
  defines "step \<equiv> (\<lambda>(bestMove, bestScore) move.
              if scoreOf move > bestScore then (move, scoreOf move) else (bestMove, bestScore))"
  shows "s0 \<le> snd (foldl step (m0, s0) ms)
       \<and> (\<forall>m \<in> set ms. scoreOf m \<le> snd (foldl step (m0, s0) ms))
       \<and> (foldl step (m0, s0) ms = (m0, s0)
            \<or> fst (foldl step (m0, s0) ms) \<in> set ms
              \<and> scoreOf (fst (foldl step (m0, s0) ms)) = snd (foldl step (m0, s0) ms))"
proof (induction ms arbitrary: m0 s0)
  case Nil
  then show ?case by simp
next
  case (Cons a ms)
  show ?case
  proof (cases "scoreOf a > s0")
    case True
    then have st: "step (m0, s0) a = (a, scoreOf a)" by (simp add: step_def)
    from Cons.IH [of "scoreOf a" a] True show ?thesis
      unfolding foldl_Cons st by (auto intro: order.trans less_imp_le)
  next
    case False
    then have st: "step (m0, s0) a = (m0, s0)" by (simp add: step_def)
    from False have "scoreOf a \<le> s0" by simp
    with Cons.IH [of s0 m0] show ?thesis
      unfolding foldl_Cons st by (auto intro: order.trans)
  qed
qed

lemma selectBest_beats:
  assumes w: "w \<in> set ms" and fin: "NegInf < scoreOf w"
  shows "fst (selectBest scoreOf ms) \<in> set ms
       \<and> scoreOf w \<le> scoreOf (fst (selectBest scoreOf ms))"
proof -
  let ?r = "selectBest scoreOf ms"
  from selectBest_fold [of NegInf scoreOf "hd ms" ms]
  have ge: "scoreOf w \<le> snd ?r"
    and alt: "?r = (hd ms, NegInf) \<or> fst ?r \<in> set ms \<and> scoreOf (fst ?r) = snd ?r"
    using w unfolding selectBest_def by blast+
  from ge fin have "snd ?r \<noteq> NegInf" by auto
  with alt have "fst ?r \<in> set ms \<and> scoreOf (fst ?r) = snd ?r" by auto
  with ge show ?thesis by simp
qed

subsection \<open>Immediate wins\<close>

lemma addScore_mono: "s \<le> Fin k \<Longrightarrow> addScore s n \<le> Fin (k + n)"
  by (cases s) simp_all

lemma getPositionalScore_bounds:
  "1 \<le> getPositionalScore pos" "getPositionalScore pos \<le> 3"
  "getPositionalScore pos = 3 \<Longrightarrow> row pos = 1 \<and> col pos = 1"
  by (auto simp: getPositionalScore_def split: if_splits)

lemma minimax_selects_win:
  assumes wf: "wf_board board" and w: "w \<in> set (getAvailableMoves board)"
    and win: "getWinner (makeMove board w (player ai)) = Some (player ai)"
  defines "best \<equiv> fst (selectBest (\<lambda>move. minimax ai (makeMove board move (player ai)) 0 False)
                          (getAvailableMoves board))"
  shows "getWinner (makeMove board best (player ai)) = Some (player ai)"
proof (rule ccontr)
  assume nw: "getWinner (makeMove board best (player ai)) \<noteq> Some (player ai)"
  let ?f = "\<lambda>move. minimax ai (makeMove board move (player ai)) 0 False"
  have fw: "?f w = Fin 10" by (rule winning_move_10 [OF win])
  then have "NegInf < ?f w" by (simp add: less_score_def)
  from selectBest_beats [of w "getAvailableMoves board" ?f, OF w this]
  have b: "best \<in> set (getAvailableMoves board)" and ge: "Fin 10 \<le> ?f best"
    unfolding best_def fw by simp_all
  from ge nonwinning_move_9 [OF wf b nw] have "Fin 10 \<le> Fin 9" by (rule order.trans)
  then show False by simp
qed

lemma selectBest_fold_split:
  fixes scoreOf :: "Position \<Rightarrow> score"
  defines "step \<equiv> (\<lambda>(bestMove, bestScore) move.
              if scoreOf move > bestScore then (move, scoreOf move) else (bestMove, bestScore))"
  shows "(foldl step (m0, s0) ms = (m0, s0) \<and> (\<forall>m \<in> set ms. scoreOf m \<le> s0))
       \<or> (\<exists>xs ys. ms = xs @ fst (foldl step (m0, s0) ms) # ys
             \<and> scoreOf (fst (foldl step (m0, s0) ms)) = snd (foldl step (m0, s0) ms)
             \<and> s0 < snd (foldl step (m0, s0) ms)
             \<and> (\<forall>x \<in> set xs. scoreOf x < snd (foldl step (m0, s0) ms))
             \<and> (\<forall>y \<in> set ys. scoreOf y \<le> snd (foldl step (m0, s0) ms)))"
proof (induction ms arbitrary: m0 s0)
  case Nil
  then show ?case by simp
next
  case (Cons a ms)
  show ?case
  proof (cases "scoreOf a > s0")
    case True
    then have st: "step (m0, s0) a = (a, scoreOf a)" by (simp add: step_def)
    let ?r = "foldl step (a, scoreOf a) ms"
    from Cons.IH [of a "scoreOf a"] show ?thesis
    proof
      assume h: "?r = (a, scoreOf a) \<and> (\<forall>m \<in> set ms. scoreOf m \<le> scoreOf a)"
      then have "a # ms = [] @ fst ?r # ms" by simp
      with h True show ?thesis unfolding foldl_Cons st by (intro disjI2 exI [of _ "[]"] exI [of _ ms]) simp
    next
      assume "\<exists>xs ys. ms = xs @ fst ?r # ys \<and> scoreOf (fst ?r) = snd ?r \<and> scoreOf a < snd ?r
             \<and> (\<forall>x \<in> set xs. scoreOf x < snd ?r) \<and> (\<forall>y \<in> set ys. scoreOf y \<le> snd ?r)"
      then obtain xs ys where h: "ms = xs @ fst ?r # ys" "scoreOf (fst ?r) = snd ?r"
        "scoreOf a < snd ?r" "\<forall>x \<in> set xs. scoreOf x < snd ?r" "\<forall>y \<in> set ys. scoreOf y \<le> snd ?r"
        by blast
      have "a # ms = (a # xs) @ fst ?r # ys" using h(1) by simp
      moreover have "s0 < snd ?r" using True h(3) by (rule less_trans)
      ultimately show ?thesis unfolding foldl_Cons st using h
        by (intro disjI2 exI [of _ "a # xs"] exI [of _ ys]) simp
    qed
  next
    case False
    then have st: "step (m0, s0) a = (m0, s0)" by (simp add: step_def)
    from False have le: "scoreOf a \<le> s0" by simp
    let ?r = "foldl step (m0, s0) ms"
    from Cons.IH [of m0 s0] show ?thesis
    proof
      assume "?r = (m0, s0) \<and> (\<forall>m \<in> set ms. scoreOf m \<le> s0)"
      with le show ?thesis unfolding foldl_Cons st by simp
    next
      assume "\<exists>xs ys. ms = xs @ fst ?r # ys \<and> scoreOf (fst ?r) = snd ?r \<and> s0 < snd ?r
             \<and> (\<forall>x \<in> set xs. scoreOf x < snd ?r) \<and> (\<forall>y \<in> set ys. scoreOf y \<le> snd ?r)"
      then obtain xs ys where h: "ms = xs @ fst ?r # ys" "scoreOf (fst ?r) = snd ?r"
        "s0 < snd ?r" "\<forall>x \<in> set xs. scoreOf x < snd ?r" "\<forall>y \<in> set ys. scoreOf y \<le> snd ?r"
        by blast
      have "a # ms = (a # xs) @ fst ?r # ys" using h(1) by simp
      moreover have "scoreOf a < snd ?r" using le h(3) by (rule le_less_trans)
      ultimately show ?thesis unfolding foldl_Cons st using h
        by (intro disjI2 exI [of _ "a # xs"] exI [of _ ys]) simp
    qed
  qed
qed

text \<open>The selected move is the first of those with the greatest score.\<close>

lemma selectBest_first:
  assumes w: "w \<in> set ms" and fin: "NegInf < scoreOf w"
  obtains xs ys where "ms = xs @ fst (selectBest scoreOf ms) # ys"
    and "\<forall>x \<in> set xs. scoreOf x < scoreOf (fst (selectBest scoreOf ms))"
    and "\<forall>y \<in> set ys. scoreOf y \<le> scoreOf (fst (selectBest scoreOf ms))"
proof -
  let ?r = "selectBest scoreOf ms"
  from selectBest_fold_split [of scoreOf "hd ms" NegInf ms]
  have "(\<forall>m \<in> set ms. scoreOf m \<le> NegInf)
       \<or> (\<exists>xs ys. ms = xs @ fst ?r # ys \<and> scoreOf (fst ?r) = snd ?r
             \<and> (\<forall>x \<in> set xs. scoreOf x < snd ?r) \<and> (\<forall>y \<in> set ys. scoreOf y \<le> snd ?r))"
    unfolding selectBest_def by blast
  moreover have "\<not> scoreOf w \<le> NegInf" using fin by (simp add: not_le)
  then have "\<not> (\<forall>m \<in> set ms. scoreOf m \<le> NegInf)" using w by blast
  ultimately obtain xs ys where "ms = xs @ fst ?r # ys" "scoreOf (fst ?r) = snd ?r"
    "\<forall>x \<in> set xs. scoreOf x < snd ?r" "\<forall>y \<in> set ys. scoreOf y \<le> snd ?r"
    by blast
  then show ?thesis using that by simp
qed

text \<open>\<open>getAvailableMoves\<close> lists the cells in row-major order.\<close>

lemma getAvailableMoves_sorted:
  "sorted_wrt (\<lambda>a b. row a < row b \<or> (row a = row b \<and> col a < col b))
     (getAvailableMoves board)"
  unfolding getAvailableMoves_filter
  by (rule sorted_wrt_filter) (simp add: upt_rec numeral_eq_Suc)

lemma after_centre_edge:
  assumes "row w < 3" "col w < 3" and "getPositionalScore w = 1"
    and "1 < row w \<or> (1 = row w \<and> 1 < col w)"
  shows "w = \<lparr>row = 1, col = 2\<rparr> \<or> w = \<lparr>row = 2, col = 1\<rparr>"
proof -
  have "row w = 1 \<and> col w = 2 \<or> row w = 2 \<and> col w = 1"
    using assms by (auto simp: getPositionalScore_def split: if_splits)
  then show ?thesis by (cases w) auto
qed

lemma getPatternMove_None_iff:
  "getPatternMove ai board = None
     \<longleftrightarrow> (\<forall>n. patternMemory ai (boardToPattern board) = Some n \<longrightarrow> n \<le> 5)"
  by (auto simp: getPatternMove_def split: option.splits)

lemma bonus_selects_win_or_late_edge:
  assumes wf: "wf_board board" and w: "w \<in> set (getAvailableMoves board)"
    and win: "getWinner (makeMove board w (player ai)) = Some (player ai)"
    and marks: "opponent ai \<noteq> player ai"
  defines "best \<equiv> fst (selectBest
              (\<lambda>move. addScore (minimax ai (makeMove board move (player ai)) 0 False)
                         (getPositionalScore move))
              (getAvailableMoves board))"
  shows "getWinner (makeMove board best (player ai)) = Some (player ai)
         \<or> (best = \<lparr>row = 1, col = 1\<rparr>
             \<and> minimax ai (makeMove board \<lparr>row = 1, col = 1\<rparr> (player ai)) 0 False = Fin 8
             \<and> (\<forall>w' \<in> set (getAvailableMoves board).
                   getWinner (makeMove board w' (player ai)) = Some (player ai) \<longrightarrow>
                     w' = \<lparr>row = 1, col = 2\<rparr> \<or> w' = \<lparr>row = 2, col = 1\<rparr>))"
proof (cases "getWinner (makeMove board best (player ai)) = Some (player ai)")
  case True
  then show ?thesis by simp
next
  case nw: False
  let ?f = "\<lambda>move. addScore (minimax ai (makeMove board move (player ai)) 0 False)
                         (getPositionalScore move)"
  let ?ms = "getAvailableMoves board"
  have fwin: "?f w' = Fin (10 + getPositionalScore w')"
    if "getWinner (makeMove board w' (player ai)) = Some (player ai)" for w'
    by (simp add: winning_move_10 [OF that])
  have "NegInf < ?f w" by (simp add: fwin [OF win] less_score_def)
  from selectBest_first [of w ?ms ?f, OF w this]
  obtain xs ys where split: "?ms = xs @ best # ys"
    and before: "\<forall>x \<in> set xs. ?f x < ?f best"
    and after: "\<forall>y \<in> set ys. ?f y \<le> ?f best"
    unfolding best_def by blast
  have b: "best \<in> set ?ms" unfolding split by simp
  have s8: "minimax ai (makeMove board best (player ai)) 0 False \<le> Fin 8"
    by (rule nonwinning_move_8 [OF wf b nw marks])
  have le: "?f best \<le> Fin (8 + getPositionalScore best)"
    by (rule addScore_mono [OF s8])
  have ge: "Fin (10 + getPositionalScore w') \<le> ?f best"
    if "w' \<in> set ?ms" "getWinner (makeMove board w' (player ai)) = Some (player ai)" for w'
  proof -
    from that(1) have "w' \<in> set xs \<or> w' = best \<or> w' \<in> set ys" unfolding split by auto
    with before after have "?f w' \<le> ?f best" by (auto intro: less_imp_le)
    then show ?thesis unfolding fwin [OF that(2)] .
  qed
  have bonus: "10 + getPositionalScore w' \<le> 8 + getPositionalScore best"
    if "w' \<in> set ?ms" "getWinner (makeMove board w' (player ai)) = Some (player ai)" for w'
    using order.trans [OF ge [OF that] le] by simp
  from bonus [OF w win] getPositionalScore_bounds(1) [of w] getPositionalScore_bounds(2) [of best]
  have b3: "getPositionalScore best = 3" by linarith
  from getPositionalScore_bounds(3) [OF b3] have centre: "best = \<lparr>row = 1, col = 1\<rparr>"
    by (cases best) simp
  obtain s where s: "minimax ai (makeMove board best (player ai)) 0 False = s" by simp
  have "Fin 11 \<le> addScore s 3"
    using ge [OF w win] getPositionalScore_bounds(1) [of w] unfolding s b3
    by (cases "addScore s 3") (auto simp: less_eq_score.simps)
  with s8 have "s = Fin 8" unfolding s by (cases s) auto
  then have score: "minimax ai (makeMove board \<lparr>row = 1, col = 1\<rparr> (player ai)) 0 False = Fin 8"
    using s centre by simp
  have late: "w' = \<lparr>row = 1, col = 2\<rparr> \<or> w' = \<lparr>row = 2, col = 1\<rparr>"
    if w': "w' \<in> set ?ms" and win': "getWinner (makeMove board w' (player ai)) = Some (player ai)"
    for w'
  proof -
    from bonus [OF that] b3 getPositionalScore_bounds(1) [of w']
    have e: "getPositionalScore w' = 1" by linarith
    have "w' \<notin> set xs"
    proof
      assume "w' \<in> set xs"
      with before have "?f w' < ?f best" by blast
      then have "Fin (10 + getPositionalScore w') < Fin (8 + getPositionalScore best)"
        unfolding fwin [OF win'] using le by (rule less_le_trans)
      then show False unfolding e b3 by (simp add: less_score_def)
    qed
    moreover have "w' \<noteq> best" using nw win' by auto
    ultimately have "w' \<in> set ys" using w' unfolding split by auto
    moreover from getAvailableMoves_sorted [of board]
    have "\<forall>y \<in> set ys. row best < row y \<or> (row best = row y \<and> col best < col y)"
      unfolding split by (simp add: sorted_wrt_append)
    ultimately have "1 < row w' \<or> (1 = row w' \<and> 1 < col w')" unfolding centre by auto
    moreover from getAvailableMoves_null [OF w'] have "row w' < 3" "col w' < 3" by simp_all
    ultimately show ?thesis using e by (intro after_centre_edge)
  qed
  from centre score late show ?thesis by blast
qed

text \<open>
  C3, as amended. On a board where the engine's player has a legal move that wins at once,
  the Hard and the Expert tier select a move that wins at once. So does the Impossible
  tier when the stored count of the board's fingerprint is absent or at most 5, with one
  exception: it may select the centre when every move that wins at once is one of the
  edges (1,2) and (2,1), which come after the centre in row-major order, and the centre
  is worth 8 to the search (a win two plies later). It adds the positional bonus before
  comparing, so such a centre (8 + 3) ties a winning edge (10 + 1) and, seen first, is
  kept. When the stored count is above 5 the Impossible tier does not search: it answers
  the first available move in row-major order.
\<close>

theorem winning_move_selected:
  assumes "wf_board board" and "opponent ai \<noteq> player ai"
    and "w \<in> set (getAvailableMoves board)"
    and "getWinner (makeMove board w (player ai)) = Some (player ai)"
  shows "\<exists>move ai'. getBestMove ai rnd board = Inr (move, ai') \<and>
           (difficulty ai = Hard \<or> difficulty ai = Expert \<longrightarrow>
              getWinner (makeMove board (position move) (player ai)) = Some (player ai)) \<and>
           (difficulty ai = Impossible
              \<and> (\<forall>n. patternMemory ai (boardToPattern board) = Some n \<longrightarrow> n \<le> 5) \<longrightarrow>
              getWinner (makeMove board (position move) (player ai)) = Some (player ai)
              \<or> (position move = \<lparr>row = 1, col = 1\<rparr>
                  \<and> minimaxAlphaBeta ai (makeMove board \<lparr>row = 1, col = 1\<rparr> (player ai)) 0
                       NegInf PosInf False = Fin 8
                  \<and> (\<forall>w' \<in> set (getAvailableMoves board).
                        getWinner (makeMove board w' (player ai)) = Some (player ai) \<longrightarrow>
                          w' = \<lparr>row = 1, col = 2\<rparr> \<or> w' = \<lparr>row = 2, col = 1\<rparr>))) \<and>
           (difficulty ai = Impossible
              \<and> (\<exists>n. patternMemory ai (boardToPattern board) = Some n \<and> 5 < n) \<longrightarrow>
              position move = hd (getAvailableMoves board))"
proof -
  have ne: "getAvailableMoves board \<noteq> []" using assms(3) by auto
  show ?thesis
  proof (cases "difficulty ai")
    case Easy
    then show ?thesis using ne by (simp add: getBestMove_def Let_def)
  next
    case Medium
    then show ?thesis using ne by (simp add: getBestMove_def Let_def)
  next
    case Hard
    then show ?thesis
      using ne minimax_selects_win [OF assms(1,3,4)]
      by (simp add: getBestMove_def getHardMove_def split_beta Let_def)
  next
    case Expert
    then show ?thesis
      using ne minimax_selects_win [OF assms(1,3,4)]
      by (simp add: getBestMove_def getExpertMove_def split_beta Let_def alphaBeta_full_window)
  next
    case Impossible
    show ?thesis
    proof (cases "getPatternMove ai board")
      case None
      then have low: "\<forall>n. patternMemory ai (boardToPattern board) = Some n \<longrightarrow> n \<le> 5"
        by (simp add: getPatternMove_None_iff)
      then have high: "(\<exists>n. patternMemory ai (boardToPattern board) = Some n \<and> 5 < n) = False"
        by fastforce
      show ?thesis
        using None Impossible ne bonus_selects_win_or_late_edge [OF assms(1,3,4,2)]
        unfolding high
        by (simp add: getBestMove_def getImpossibleMove_def split_beta Let_def
            alphaBeta_full_window)
    next
      case (Some pm)
      then have low: "(\<forall>n. patternMemory ai (boardToPattern board) = Some n \<longrightarrow> n \<le> 5) = False"
        using getPatternMove_None_iff [of ai board] by simp
      from Some have "position pm = hd (getAvailableMoves board)"
        by (auto simp: getPatternMove_def split: option.splits if_splits)
      then show ?thesis
        using Some Impossible ne unfolding low
        by (simp add: getBestMove_def getImpossibleMove_def Let_def)
    qed
  qed
qed

text \<open>
  X to move on the first board wins at once at (1,2); the Impossible tier answers the
  centre (1,1), which does not win at once. On the second board X wins at once at (2,2);
  an Impossible engine that was asked six times on that board answers (0,2) from its
  pattern memory, which does not win at once.
\<close>

theorem impossible_misses_win_counterexample:
  "cellAt [[None, Some PlayerO, Some PlayerX],
           [None, None, None],
           [None, Some PlayerO, Some PlayerX]] 1 2 = Some None
   \<and> getWinner (makeMove [[None, Some PlayerO, Some PlayerX],
                          [None, None, None],
                          [None, Some PlayerO, Some PlayerX]] \<lparr>row = 1, col = 2\<rparr> PlayerX)
       = Some PlayerX
   \<and> map_sum id fst (getBestMove (newAI PlayerX Impossible) 0
         [[None, Some PlayerO, Some PlayerX],
          [None, None, None],
          [None, Some PlayerO, Some PlayerX]])
       = Inr \<lparr>position = \<lparr>row = 1, col = 1\<rparr>, score = Fin 11, confidence = 1,
              strategy = ''Perfect Play + Patterns''\<rparr>
   \<and> getWinner (makeMove [[None, Some PlayerO, Some PlayerX],
                          [None, None, None],
                          [None, Some PlayerO, Some PlayerX]] \<lparr>row = 1, col = 1\<rparr> PlayerX)
       = None
   \<and> getWinner (makeMove [[Some PlayerX, Some PlayerO, None],
                          [Some PlayerO, Some PlayerX, Some PlayerO],
                          [None, Some PlayerX, None]] \<lparr>row = 2, col = 2\<rparr> PlayerX)
       = Some PlayerX
   \<and> map_sum id fst (getBestMove
         (askTimes 6 (newAI PlayerX Impossible)
            [[Some PlayerX, Some PlayerO, None],
             [Some PlayerO, Some PlayerX, Some PlayerO],
             [None, Some PlayerX, None]]) 0
         [[Some PlayerX, Some PlayerO, None],
          [Some PlayerO, Some PlayerX, Some PlayerO],
          [None, Some PlayerX, None]])
       = Inr \<lparr>position = \<lparr>row = 0, col = 2\<rparr>, score = Fin 6, confidence = 9 / 10,
              strategy = ''Pattern Recognition''\<rparr>
   \<and> getWinner (makeMove [[Some PlayerX, Some PlayerO, None],
                          [Some PlayerO, Some PlayerX, Some PlayerO],
                          [None, Some PlayerX, None]] \<lparr>row = 0, col = 2\<rparr> PlayerX)
       = None"
  by code_simp

theorem winning_move_selected_witness:
  "(\<exists>move ai'. getBestMove (newAI PlayerX Hard) 0
        [[None, Some PlayerO, Some PlayerX],
         [None, None, None],
         [None, Some PlayerO, Some PlayerX]] = Inr (move, ai')
      \<and> getWinner (makeMove [[None, Some PlayerO, Some PlayerX],
                             [None, None, None],
                             [None, Some PlayerO, Some PlayerX]] (position move) PlayerX)
          = Some PlayerX)
   \<and> (\<exists>move ai'. getBestMove (newAI PlayerX Impossible) 0
        [[None, Some PlayerO, Some PlayerX],
         [None, None, None],
         [None, Some PlayerO, Some PlayerX]] = Inr (move, ai')
      \<and> (getWinner (makeMove [[None, Some PlayerO, Some PlayerX],
                             [None, None, None],
                             [None, Some PlayerO, Some PlayerX]] (position move) PlayerX)
          = Some PlayerX
         \<or> (position move = \<lparr>row = 1, col = 1\<rparr>
             \<and> minimaxAlphaBeta (newAI PlayerX Impossible)
                  (makeMove [[None, Some PlayerO, Some PlayerX],
                             [None, None, None],
                             [None, Some PlayerO, Some PlayerX]] \<lparr>row = 1, col = 1\<rparr> PlayerX) 0
                  NegInf PosInf False = Fin 8
             \<and> (\<forall>w' \<in> set (getAvailableMoves [[None, Some PlayerO, Some PlayerX],
                             [None, None, None],
                             [None, Some PlayerO, Some PlayerX]]).
                   getWinner (makeMove [[None, Some PlayerO, Some PlayerX],
                             [None, None, None],
                             [None, Some PlayerO, Some PlayerX]] w' PlayerX) = Some PlayerX \<longrightarrow>
                     w' = \<lparr>row = 1, col = 2\<rparr> \<or> w' = \<lparr>row = 2, col = 1\<rparr>))))
   \<and> (\<exists>move ai'. getBestMove
          ((newAI PlayerX Impossible)\<lparr>patternMemory := [''_OX____OX'' \<mapsto> 6]\<rparr>) 0
        [[None, Some PlayerO, Some PlayerX],
         [None, None, None],
         [None, Some PlayerO, Some PlayerX]] = Inr (move, ai')
      \<and> position move = \<lparr>row = 0, col = 0\<rparr>)"
proof -
  let ?b = "[[None, Some PlayerO, Some PlayerX],
             [None, None, None],
             [None, Some PlayerO, Some PlayerX]]"
  let ?trained = "(newAI PlayerX Impossible)\<lparr>patternMemory := [''_OX____OX'' \<mapsto> 6]\<rparr>"
  have wf: "wf_board ?b"
    and w: "\<lparr>row = 1, col = 2\<rparr> \<in> set (getAvailableMoves ?b)"
    and win: "getWinner (makeMove ?b \<lparr>row = 1, col = 2\<rparr> PlayerX) = Some PlayerX"
    and pat: "boardToPattern ?b = ''_OX____OX''"
    and first: "hd (getAvailableMoves ?b) = \<lparr>row = 0, col = 0\<rparr>"
    by code_simp+
  have h: "opponent (newAI PlayerX Hard) \<noteq> player (newAI PlayerX Hard)"
    "player (newAI PlayerX Hard) = PlayerX" "difficulty (newAI PlayerX Hard) = Hard"
    and i: "opponent (newAI PlayerX Impossible) \<noteq> player (newAI PlayerX Impossible)"
    "player (newAI PlayerX Impossible) = PlayerX"
    "difficulty (newAI PlayerX Impossible) = Impossible"
    "patternMemory (newAI PlayerX Impossible) = Map.empty"
    and t: "opponent ?trained \<noteq> player ?trained" "player ?trained = PlayerX"
    "difficulty ?trained = Impossible"
    "patternMemory ?trained ''_OX____OX'' = Some 6"
    by (simp_all add: newAI_def)
  have one: "\<exists>move ai'. getBestMove (newAI PlayerX Hard) 0 ?b = Inr (move, ai')
      \<and> getWinner (makeMove ?b (position move) PlayerX) = Some PlayerX"
    using winning_move_selected [of ?b "newAI PlayerX Hard" "\<lparr>row = 1, col = 2\<rparr>" 0] wf w win h
    by simp
  have two: "\<exists>move ai'. getBestMove (newAI PlayerX Impossible) 0 ?b = Inr (move, ai')
      \<and> (getWinner (makeMove ?b (position move) PlayerX) = Some PlayerX
         \<or> (position move = \<lparr>row = 1, col = 1\<rparr>
             \<and> minimaxAlphaBeta (newAI PlayerX Impossible)
                  (makeMove ?b \<lparr>row = 1, col = 1\<rparr> PlayerX) 0 NegInf PosInf False = Fin 8
             \<and> (\<forall>w' \<in> set (getAvailableMoves ?b).
                   getWinner (makeMove ?b w' PlayerX) = Some PlayerX \<longrightarrow>
                     w' = \<lparr>row = 1, col = 2\<rparr> \<or> w' = \<lparr>row = 2, col = 1\<rparr>)))"
    using winning_move_selected [of ?b "newAI PlayerX Impossible" "\<lparr>row = 1, col = 2\<rparr>" 0]
      wf w win i
    by simp
  have three: "\<exists>move ai'. getBestMove ?trained 0 ?b = Inr (move, ai')
      \<and> position move = \<lparr>row = 0, col = 0\<rparr>"
    using winning_move_selected [of ?b ?trained "\<lparr>row = 1, col = 2\<rparr>" 0] wf w win
      t pat first
    by auto
  from one two three show ?thesis by blast
qed

text \<open>
  C9. When the stored count of the board's fingerprint is above 5, the Impossible tier
  answers from the pattern memory: the move is the first available move of the board in
  row-major order, whatever the search would say, its score is the stored count, and the
  memory is left as it was. That move need not be the one whose selection was counted:
  on the board of the last two conjuncts the search selects (2,2), the replay gives (0,2).
\<close>

theorem impossible_replays_first_move:
  assumes "wf_board board" and "getAvailableMoves board \<noteq> []"
    and "difficulty ai = Impossible"
    and "patternMemory ai (boardToPattern board) = Some n" and "n > 5"
  shows "getBestMove ai rnd board =
           Inr (\<lparr>position = hd (getAvailableMoves board), score = Fin n, confidence = 0.9,
                 strategy = ''Pattern Recognition''\<rparr>, ai)
         \<and> hd (getAvailableMoves board) \<in> set (getAvailableMoves board)
         \<and> position (fst (getImpossibleMove (newAI PlayerX Impossible)
              [[Some PlayerX, Some PlayerO, None],
               [Some PlayerO, Some PlayerX, Some PlayerO],
               [None, Some PlayerX, None]]
              (getAvailableMoves [[Some PlayerX, Some PlayerO, None],
               [Some PlayerO, Some PlayerX, Some PlayerO],
               [None, Some PlayerX, None]]))) = \<lparr>row = 2, col = 2\<rparr>
         \<and> hd (getAvailableMoves [[Some PlayerX, Some PlayerO, None],
               [Some PlayerO, Some PlayerX, Some PlayerO],
               [None, Some PlayerX, None]]) = \<lparr>row = 0, col = 2\<rparr>"
proof -
  have "getBestMove ai rnd board =
           Inr (\<lparr>position = hd (getAvailableMoves board), score = Fin n, confidence = 0.9,
                 strategy = ''Pattern Recognition''\<rparr>, ai)"
    using assms by (simp add: getBestMove_def getImpossibleMove_def getPatternMove_def Let_def)
  moreover have "hd (getAvailableMoves board) \<in> set (getAvailableMoves board)"
    using assms(2) by simp
  moreover have "position (fst (getImpossibleMove (newAI PlayerX Impossible)
              [[Some PlayerX, Some PlayerO, None],
               [Some PlayerO, Some PlayerX, Some PlayerO],
               [None, Some PlayerX, None]]
              (getAvailableMoves [[Some PlayerX, Some PlayerO, None],
               [Some PlayerO, Some PlayerX, Some PlayerO],
               [None, Some PlayerX, None]]))) = \<lparr>row = 2, col = 2\<rparr>"
    by code_simp
  moreover have "hd (getAvailableMoves [[Some PlayerX, Some PlayerO, None],
               [Some PlayerO, Some PlayerX, Some PlayerO],
               [None, Some PlayerX, None]]) = \<lparr>row = 0, col = 2\<rparr>"
    by code_simp
  ultimately show ?thesis by blast
qed

theorem impossible_replays_first_move_witness:
  "map_sum id fst (getBestMove
      ((newAI PlayerX Impossible)\<lparr>patternMemory := [''XO_OXO_X_'' \<mapsto> 6]\<rparr>) 0
      [[Some PlayerX, Some PlayerO, None],
       [Some PlayerO, Some PlayerX, Some PlayerO],
       [None, Some PlayerX, None]])
   = Inr \<lparr>position = \<lparr>row = 0, col = 2\<rparr>, score = Fin 6, confidence = 0.9,
          strategy = ''Pattern Recognition''\<rparr>"
proof -
  let ?b = "[[Some PlayerX, Some PlayerO, None],
       [Some PlayerO, Some PlayerX, Some PlayerO],
       [None, Some PlayerX, None]]"
  let ?ai = "(newAI PlayerX Impossible)\<lparr>patternMemory := [''XO_OXO_X_'' \<mapsto> 6]\<rparr>"
  have wf: "wf_board ?b" and ne: "getAvailableMoves ?b \<noteq> []"
    and pat: "boardToPattern ?b = ''XO_OXO_X_''"
    by code_simp+
  have d: "difficulty ?ai = Impossible" by (simp add: newAI_def)
  have m: "patternMemory ?ai (boardToPattern ?b) = Some 6" unfolding pat by simp
  from impossible_replays_first_move [OF wf ne d m, of 0]
  show ?thesis by simp
qed

section \<open>Properties of the tournament orchestrator\<close>

subsection \<open>Ratings\<close>

lemma expectedScore_sum: "expectedScore a b + expectedScore b a = 1"
proof -
  define x where "x = 10 powr (real_of_int (b - a) / 400)"
  have x: "0 < x" by (simp add: x_def)
  have "real_of_int (a - b) / 400 = - (real_of_int (b - a) / 400)" by (simp add: field_simps)
  then have "10 powr (real_of_int (a - b) / 400) = 10 powr (- (real_of_int (b - a) / 400))"
    by (rule arg_cong)
  also have "\<dots> = 1 / x" by (simp add: x_def powr_minus_divide)
  finally have ba: "expectedScore b a = 1 / (1 + 1 / x)" by (simp add: expectedScore_def)
  have ab: "expectedScore a b = 1 / (1 + x)" by (simp add: expectedScore_def x_def)
  have "1 / (1 + x) + 1 / (1 + 1 / x) = 1" using x by (simp add: field_simps)
  then show ?thesis unfolding ab ba .
qed

lemma mathRound_shift: "mathRound (real_of_int n + y) - n = mathRound y"
proof -
  have "real_of_int n + y + 1 / 2 = (y + 1 / 2) + real_of_int n" by simp
  then have "mathRound (real_of_int n + y) = \<lfloor>(y + 1 / 2) + real_of_int n\<rfloor>"
    unfolding mathRound_def by (rule arg_cong)
  also have "\<dots> = \<lfloor>y + 1 / 2\<rfloor> + n" by (rule floor_add_int [symmetric])
  finally have e: "mathRound (real_of_int n + y) = \<lfloor>y + 1 / 2\<rfloor> + n" .
  show ?thesis unfolding e by (simp add: mathRound_def)
qed

lemma mathRound_opposite: "mathRound y + mathRound (- y) = 0 \<or> mathRound y + mathRound (- y) = 1"
proof -
  have "real_of_int (mathRound y) \<le> y + 1 / 2" "y + 1 / 2 < real_of_int (mathRound y) + 1"
    "real_of_int (mathRound (- y)) \<le> - y + 1 / 2"
    "- y + 1 / 2 < real_of_int (mathRound (- y)) + 1"
    unfolding mathRound_def by linarith+
  then have "real_of_int (mathRound y + mathRound (- y)) \<le> 1"
    "-1 < real_of_int (mathRound y + mathRound (- y))"
    by simp_all
  then have "mathRound y + mathRound (- y) \<le> 1" "-1 < mathRound y + mathRound (- y)"
    by linarith+
  then show ?thesis by linarith
qed

lemma rounded_deltas:
  assumes a: "a1 + a2 = (1::real)"
    and n1: "n1 = mathRound (real_of_int e1 + 32 * (a1 - E))"
    and n2: "n2 = mathRound (real_of_int e2 + 32 * (a2 - (1 - E)))"
  shows "(n1 - e1) + (n2 - e2) = 0 \<or> (n1 - e1) + (n2 - e2) = 1"
proof -
  have "32 * (a2 - (1 - E)) = - (32 * (a1 - E))" using a by (simp add: algebra_simps)
  then have "n2 = mathRound (real_of_int e2 + - (32 * (a1 - E)))"
    unfolding n2 by (simp only:)
  then have "n2 - e2 = mathRound (- (32 * (a1 - E)))"
    by (simp only: mathRound_shift)
  moreover have "n1 - e1 = mathRound (32 * (a1 - E))"
    unfolding n1 by (simp only: mathRound_shift)
  ultimately show ?thesis using mathRound_opposite [of "32 * (a1 - E)"] by simp
qed

lemma newRatings_cases:
  "newRatings Player1 e1 e2 =
     Some (mathRound (real_of_int e1 + 32 * (1 - expectedScore e1 e2)),
           mathRound (real_of_int e2 + 32 * (0 - expectedScore e2 e1)))"
  "newRatings Player2 e1 e2 =
     Some (mathRound (real_of_int e1 + 32 * (0 - expectedScore e1 e2)),
           mathRound (real_of_int e2 + 32 * (1 - expectedScore e2 e1)))"
  "newRatings Draw e1 e2 =
     Some (mathRound (real_of_int e1 + 32 * (1 / 2 - expectedScore e1 e2)),
           mathRound (real_of_int e2 + 32 * (1 / 2 - expectedScore e2 e1)))"
  "newRatings Pending e1 e2 = None"
  by (simp_all add: newRatings_def Let_def)

lemma newRatings_sum:
  assumes "newRatings r e1 e2 = Some (n1, n2)"
  shows "(n1 - e1) + (n2 - e2) = 0 \<or> (n1 - e1) + (n2 - e2) = 1"
proof -
  define E where "E = expectedScore e1 e2"
  have E2: "expectedScore e2 e1 = 1 - E"
    using expectedScore_sum [of e1 e2] by (simp add: E_def)
  show ?thesis
  proof (cases r)
    case Player1
    from assms [unfolded Player1 newRatings_cases E2 E_def [symmetric]]
    have "n1 = mathRound (real_of_int e1 + 32 * (1 - E))"
      "n2 = mathRound (real_of_int e2 + 32 * (0 - (1 - E)))"
      by (simp_all only: option.inject prod.inject)
    then show ?thesis by (intro rounded_deltas [of 1 0]) simp_all
  next
    case Player2
    from assms [unfolded Player2 newRatings_cases E2 E_def [symmetric]]
    have "n1 = mathRound (real_of_int e1 + 32 * (0 - E))"
      "n2 = mathRound (real_of_int e2 + 32 * (1 - (1 - E)))"
      by (simp_all only: option.inject prod.inject)
    then show ?thesis by (intro rounded_deltas [of 0 1]) simp_all
  next
    case Draw
    from assms [unfolded Draw newRatings_cases E2 E_def [symmetric]]
    have "n1 = mathRound (real_of_int e1 + 32 * (1 / 2 - E))"
      "n2 = mathRound (real_of_int e2 + 32 * (1 / 2 - (1 - E)))"
      by (simp_all only: option.inject prod.inject)
    then show ?thesis by (intro rounded_deltas [of "1 / 2" "1 / 2"]) simp_all
  next
    case Pending
    with assms show ?thesis by (simp add: newRatings_cases)
  qed
qed

text \<open>
  A rounding error below one rating point in total cannot move the sum of the two rounded
  changes further than one point from zero: this is where the \<open>-1\<close> of the claim below
  can come from in double precision.
\<close>

lemma mathRound_pair_near:
  assumes "\<bar>(x1 - real_of_int e1) + (x2 - real_of_int e2)\<bar> < 1"
  shows "(mathRound x1 - e1) + (mathRound x2 - e2) \<in> {- 1, 0, 1}"
proof -
  have "real_of_int (mathRound x1) \<le> x1 + 1 / 2" "x1 + 1 / 2 < real_of_int (mathRound x1) + 1"
    "real_of_int (mathRound x2) \<le> x2 + 1 / 2" "x2 + 1 / 2 < real_of_int (mathRound x2) + 1"
    unfolding mathRound_def by linarith+
  with assms have "real_of_int ((mathRound x1 - e1) + (mathRound x2 - e2)) < 2"
    "- 2 < real_of_int ((mathRound x1 - e1) + (mathRound x2 - e2))"
    by simp_all
  then have "(mathRound x1 - e1) + (mathRound x2 - e2) < 2"
    "- 2 < (mathRound x1 - e1) + (mathRound x2 - e2)"
    by linarith+
  then show ?thesis by auto
qed

text \<open>
  C8. For every reported result (win, loss or draw) and every pair of ratings, the two new
  ratings of the formula with \<open>K = 32\<close> move by amounts that sum to 0, +1 or -1. The
  formula is evaluated over the real numbers, where the sum is in fact 0 or +1.
\<close>

theorem elo_update_zero_sum:
  "r \<noteq> Pending \<longrightarrow>
     (\<exists>n1 n2. newRatings r e1 e2 = Some (n1, n2)
        \<and> ((n1 - e1) + (n2 - e2) = 0 \<or> (n1 - e1) + (n2 - e2) = 1
             \<or> (n1 - e1) + (n2 - e2) = - 1))"
proof
  assume "r \<noteq> Pending"
  then obtain n1 n2 where n: "newRatings r e1 e2 = Some (n1, n2)"
    by (cases r) (auto simp: newRatings_cases)
  from newRatings_sum [OF n] n show "\<exists>n1 n2. newRatings r e1 e2 = Some (n1, n2)
        \<and> ((n1 - e1) + (n2 - e2) = 0 \<or> (n1 - e1) + (n2 - e2) = 1
             \<or> (n1 - e1) + (n2 - e2) = - 1)"
    by blast
qed

theorem elo_update_zero_sum_witness:
  "newRatings Player1 1200 1200 = Some (1216, 1184)
   \<and> (\<exists>n1 n2. newRatings Player1 1200 1200 = Some (n1, n2)
        \<and> ((n1 - 1200) + (n2 - 1200) = 0 \<or> (n1 - 1200) + (n2 - 1200) = 1
             \<or> (n1 - 1200) + (n2 - 1200) = - 1))"
proof -
  have "newRatings Player1 1200 1200 = Some (1216, 1184)"
    by (simp add: newRatings_def expectedScore_def mathRound_def Let_def)
  moreover have "Player1 \<noteq> Pending" by simp
  ultimately show ?thesis
    using elo_update_zero_sum [of Player1 1200 1200] by blast
qed

subsection \<open>What the helpers leave alone\<close>

lemma generateId_tournaments [simp]: "tournaments (snd (generateId s)) = tournaments s"
  by (simp add: generateId_def)

lemma newMatch_tournaments [simp]: "tournaments (snd (newMatch s rn pair)) = tournaments s"
  by (simp add: newMatch_def generateId_def split_beta)

lemma newMatches_tournaments [simp]: "tournaments (snd (newMatches s rn pairs)) = tournaments s"
  by (induction pairs arbitrary: s) (simp_all add: split_beta)

lemma seRounds_tournaments [simp]: "tournaments (snd (seRounds s rn ps)) = tournaments s"
proof (induction s rn ps rule: seRounds.induct)
  case (1 s rn ps)
  show ?case
  proof (cases "length ps > 1")
    case True
    then show ?thesis
      using "1.IH" [OF True refl] by (subst seRounds.simps) (simp add: Let_def)
  next
    case False
    then show ?thesis by (subst seRounds.simps) simp
  qed
qed

lemma shuffleArray_tournaments [simp]: "tournaments (snd (shuffleArray s xs)) = tournaments s"
  by (simp add: shuffleArray_def split_beta)

lemma foldl_generateId_tournaments [simp]:
  "tournaments (foldl (\<lambda>s' m. snd (generateId s')) s xs) = tournaments s"
  by (induction xs arbitrary: s) simp_all

lemma generateBracket_tournaments [simp]:
  "tournaments (snd (generateBracket s t)) = tournaments s"
  by (cases "t_type t")
    (simp_all add: generateBracket_def generateSingleEliminationBracket_def
      generateDoubleEliminationBracket_def generateRoundRobinBracket_def
      generateSwissBracket_def split_beta Let_def)

lemma generateBracket_fields [simp]:
  "status (fst (generateBracket s t)) = status t"
  "winner (fst (generateBracket s t)) = winner t"
  "t_type (fst (generateBracket s t)) = t_type t"
  by (cases "t_type t";
      simp add: generateBracket_def generateSingleEliminationBracket_def
        generateDoubleEliminationBracket_def generateRoundRobinBracket_def
        generateSwissBracket_def split_beta Let_def)+

lemma clonePlayers_tournaments:
  "clonePlayers s playerIds = Inr (ps, s') \<Longrightarrow> tournaments s' = tournaments s"
proof (induction playerIds arbitrary: s ps s')
  case Nil
  then show ?case by simp
next
  case (Cons i playerIds)
  from Cons.prems obtain r where r: "playerDatabase s i = Some r"
    by (cases "playerDatabase s i") auto
  let ?s1 = "snd (allocPlayer s (playerObjs s r))"
  from Cons.prems r obtain cs where "clonePlayers ?s1 playerIds = Inr (cs, s')"
    by (auto simp: split_beta split: sum.splits)
  from Cons.IH [OF this] show ?case by (simp add: allocPlayer_def)
qed

lemma registerPlayer_tournaments [simp]:
  "tournaments (snd (registerPlayer s i n k d e)) = tournaments s"
  by (simp add: registerPlayer_def allocStats_def allocPlayer_def split_beta)

lemma newTournamentSystem_tournaments [simp]:
  "tournaments (newTournamentSystem ids reals) = Map.empty"
proof -
  have "tournaments (foldl (\<lambda>s' (difficulty, index).
              snd (registerPlayer s' (''ai_'' @ difficultyLower difficulty)
                     (''AI '' @ difficultyName difficulty) AI (Some difficulty)
                     (1200 + int index * 200))) s xs) = tournaments s" for s xs
    by (induction xs arbitrary: s) (simp_all add: split_beta)
  then show ?thesis
    by (simp add: newTournamentSystem_def initializeAIPlayers_def emptySystem_def)
qed

lemma updatePlayerStats_tournaments [simp]:
  "tournaments (updatePlayerStats s m) = tournaments s"
  by (cases "result m") (simp_all add: updatePlayerStats_def updatePlayer_def Let_def)

lemma updateELORatings_tournaments [simp]:
  "tournaments (updateELORatings s m) = tournaments s"
  by (simp add: updateELORatings_def Let_def split: option.splits)

lemma advanceTournament_tournaments [simp]:
  "tournaments (snd (advanceTournament s t)) = tournaments s"
  by (simp add: advanceTournament_def advanceSingleElimination_def Let_def split_beta)

lemma advanceTournament_fields [simp]:
  "status (fst (advanceTournament s t)) = status t"
  "winner (fst (advanceTournament s t)) = winner t"
  "t_type (fst (advanceTournament s t)) = t_type t"
  by (simp_all add: advanceTournament_def advanceSingleElimination_def Let_def split_beta)

lemma completeTournament_winnerStatus:
  assumes "winnerStatus t" and "isTournamentComplete t"
  shows "winnerStatus (completeTournament t)"
proof (cases "t_type t = SingleElimination")
  case True
  let ?final = "filter (\<lambda>m. roundNumber m = totalRounds t) (matches t)"
  from assms(2) have ne: "?final \<noteq> []" and all: "list_all (\<lambda>m. result m \<noteq> Pending) ?final"
    unfolding isTournamentComplete_def Let_def by (auto split: if_splits)
  from ne obtain m where m: "m \<in> set ?final" by (cases ?final) auto
  with all have "result m \<noteq> Pending" by (simp add: list_all_iff)
  with m have "m \<in> set (matches t)" "roundNumber m = totalRounds t" "result m \<noteq> Pending"
    by simp_all
  then have "find (\<lambda>m. roundNumber m = totalRounds t \<and> result m \<noteq> Pending) (matches t) \<noteq> None"
    by (auto simp: find_None_iff)
  then show ?thesis
    using True by (auto simp: winnerStatus_def completeTournament_def Let_def)
next
  case False
  then show ?thesis
    using assms(1) by (simp add: winnerStatus_def completeTournament_def Let_def)
qed

lemma reachable_winnerStatus:
  "reachable s \<Longrightarrow> tournaments s tournamentId = Some t \<Longrightarrow> winnerStatus t"
proof (induction arbitrary: tournamentId t rule: reachable.induct)
  case (new ids reals)
  then show ?case by simp
next
  case (human s n p s')
  from human.hyps(2)
  have "s' = snd (registerPlayer (snd (generateId s)) (fst (generateId s)) n Human None 1200)"
    by (auto simp: addHumanPlayer_def split_beta)
  then have "tournaments s' = tournaments s" by simp
  with human.prems human.IH show ?case by simp
next
  case (create s n ty playerIds t' s')
  from create.hyps(2) obtain ps s1 where c: "clonePlayers s playerIds = Inr (ps, s1)"
    by (auto simp: createTournament_def split: if_splits sum.splits)
  let ?i = "fst (generateId s1)"
  let ?t0 = "\<lparr>t_id = ?i, t_name = n, t_type = ty, status = Setup,
                   players = ps, matches = [],
                   bracket = \<lparr>rounds = [], grandFinals = None\<rparr>,
                   currentRound = 0, totalRounds = calculateTotalRounds ty (length ps),
                   winner = None\<rparr>"
  let ?g = "generateBracket (snd (generateId s1)) ?t0"
  from create.hyps(2) c have s': "tournaments s' = (tournaments s)(?i \<mapsto> fst ?g)"
    and t': "t' = fst ?g"
    using clonePlayers_tournaments [OF c]
    by (auto simp: createTournament_def split_beta Let_def split: if_splits)
  have new: "winnerStatus (fst ?g)" by (simp add: winnerStatus_def)
  show ?case
  proof (cases "tournamentId = ?i")
    case True
    with create.prems s' new show ?thesis by simp
  next
    case False
    with create.prems s' have "tournaments s tournamentId = Some t" by simp
    then show ?thesis by (rule create.IH)
  qed
next
  case (start s tid t' s')
  from start.hyps(2) obtain t0 where t0: "tournaments s tid = Some t0"
    and s': "tournaments s' = (tournaments s)(tid \<mapsto> t0\<lparr>status := InProgress, currentRound := 1\<rparr>)"
    by (auto simp: startTournament_def Let_def split: option.splits)
  show ?case
  proof (cases "tournamentId = tid")
    case True
    from start.IH [OF t0] have "winnerStatus (t0\<lparr>status := InProgress, currentRound := 1\<rparr>)"
      by (simp add: winnerStatus_def)
    with start.prems s' True show ?thesis by simp
  next
    case False
    with start.prems s' have "tournaments s tournamentId = Some t" by simp
    then show ?thesis by (rule start.IH)
  qed
next
  case (report s tid matchId r s')
  from report.hyps(2) obtain t0 m0 where t0: "tournaments s tid = Some t0"
    and m0: "find (\<lambda>m. m_id m = matchId) (matches t0) = Some m0"
    by (auto simp: reportMatchResult_def split: option.splits)
  define t1 where "t1 = t0\<lparr>matches := setResult matchId r (matches t0)\<rparr>"
  define s2 where "s2 = updateELORatings (updatePlayerStats s (m0\<lparr>result := r\<rparr>)) (m0\<lparr>result := r\<rparr>)"
  define t2 where "t2 = (if isTournamentComplete t1 then completeTournament t1
                          else fst (advanceTournament s2 t1))"
  from report.hyps(2) t0 m0 have s': "tournaments s' = (tournaments s)(tid \<mapsto> t2)"
    by (auto simp: reportMatchResult_def Let_def split_beta t1_def s2_def t2_def)
  have w1: "winnerStatus t1" using report.IH [OF t0] by (simp add: winnerStatus_def t1_def)
  have w2: "winnerStatus t2"
  proof (cases "isTournamentComplete t1")
    case True
    then show ?thesis using completeTournament_winnerStatus [OF w1] by (simp add: t2_def)
  next
    case False
    then show ?thesis using w1 by (simp add: t2_def winnerStatus_def)
  qed
  show ?case
  proof (cases "tournamentId = tid")
    case True
    with report.prems s' w2 show ?thesis by simp
  next
    case False
    with report.prems s' have "tournaments s tournamentId = Some t" by simp
    then show ?thesis by (rule report.IH)
  qed
qed

lemmas scenario_defs = createStartReport_def roundRobinReported_def roundRobinReportedTwice_def
  eliminationReported_def eliminationRestarted_def matchResults_def

lemma seRounds_short: "length ps \<le> 1 \<Longrightarrow> seRounds s rn ps = ([], s)"
  by (subst seRounds.simps) simp

lemma seRounds_long:
  "length ps > 1 \<Longrightarrow>
     seRounds s rn ps =
       (fst (newMatches s rn (presentPairs ps))
          # fst (seRounds (snd (newMatches s rn (presentPairs ps))) (rn + 1)
                   (map (\<lambda>_. None) (fst (newMatches s rn (presentPairs ps))))),
        snd (seRounds (snd (newMatches s rn (presentPairs ps))) (rn + 1)
               (map (\<lambda>_. None) (fst (newMatches s rn (presentPairs ps))))))"
  by (subst seRounds.simps) (simp add: Let_def)

lemma ceillog2_Suc2: "ceillog2 (Suc (Suc 0)) = 1"
  using ceillog2_2 by (simp add: numeral_2_eq_2)

lemma ceillog2_Suc4: "ceillog2 (Suc (Suc (Suc (Suc 0)))) = 2"
proof -
  have "ceillog2 (2 ^ 2) = 2" by (rule ceillog2_2_power)
  moreover have "(2::nat) ^ 2 = Suc (Suc (Suc (Suc 0)))" by (simp add: numeral_eq_Suc)
  ultimately show ?thesis by (simp only:)
qed

lemma upt5: "[0..<5] = [0, 1, 2, 3, 4]"
  by (simp add: upt_rec)

lemma newSystem_fields:
  "tournaments (newTournamentSystem ids reals) = Map.empty"
  "playerDatabase (newTournamentSystem ids reals) ''ai_easy'' = Some 0"
  "playerDatabase (newTournamentSystem ids reals) ''ai_medium'' = Some (Suc 0)"
  "playerObjs (newTournamentSystem ids reals) 0 =
     \<lparr>p_id = ''ai_easy'', p_name = ''AI Easy'', p_type = AI, p_difficulty = Some Easy,
      stats = 0, elo = 1200\<rparr>"
  "playerObjs (newTournamentSystem ids reals) (Suc 0) =
     \<lparr>p_id = ''ai_medium'', p_name = ''AI Medium'', p_type = AI, p_difficulty = Some Medium,
      stats = Suc 0, elo = 1400\<rparr>"
  "statsObjs (newTournamentSystem ids reals) 0 = \<lparr>wins = 0, losses = 0, draws = 0, gamesPlayed = 0\<rparr>"
  "statsObjs (newTournamentSystem ids reals) (Suc 0) = \<lparr>wins = 0, losses = 0, draws = 0, gamesPlayed = 0\<rparr>"
  "nextPlayerRef (newTournamentSystem ids reals) = 5"
  "idsDrawn (newTournamentSystem ids reals) = 0"
  "randomIds (newTournamentSystem ids reals) = ids"
  by (simp_all add: newTournamentSystem_def initializeAIPlayers_def registerPlayer_def
      allocStats_def allocPlayer_def emptySystem_def difficultyLower_def difficultyName_def
      upt5 split_beta Let_def)

lemma newSystem_strong:
  "playerDatabase (newTournamentSystem ids reals) ''ai_hard'' = Some 2"
  "playerDatabase (newTournamentSystem ids reals) ''ai_expert'' = Some 3"
  by (simp_all add: newTournamentSystem_def initializeAIPlayers_def registerPlayer_def
      allocStats_def allocPlayer_def emptySystem_def difficultyLower_def difficultyName_def
      upt5 split_beta Let_def)

lemmas step_defs =
  createTournament_def generateId_def generateBracket_def generateRoundRobinBracket_def
  generateSingleEliminationBracket_def newMatch_def calculateTotalRounds_def
  reportMatchResult_def updatePlayerStats_def updatePlayer_def updateELORatings_def
  isTournamentComplete_def completeTournament_def advanceTournament_def
  advanceSingleElimination_def startTournament_def allocPlayer_def
  andThen_def tournamentOf_def registryStats_def registryElo_def sampleIds_def
  seRounds_short seRounds_long newRatings_cases split_beta Let_def
  ceillog2_Suc2 ceillog2_Suc4

lemmas sample_run = scenario_defs step_defs newSystem_fields

text \<open>
  C4, as amended. In every state the operations can reach, a tournament of another format
  than single elimination has no winner (also when it is completed), a completed
  single-elimination tournament has a winner, and a tournament with a winner is not in
  \<open>Setup\<close>. It can be \<open>InProgress\<close>: \<open>startTournament\<close> sets the status whatever it was
  and keeps the winner.
\<close>

theorem winner_and_status:
  assumes "reachable s" and "tournaments s tournamentId = Some t"
  shows "(t_type t \<noteq> SingleElimination \<longrightarrow> winner t = None)
       \<and> (t_type t = SingleElimination \<and> status t = Completed \<longrightarrow> winner t \<noteq> None)
       \<and> (winner t \<noteq> None \<longrightarrow> status t \<noteq> Setup)"
  using reachable_winnerStatus [OF assms] by (simp add: winnerStatus_def)

text \<open>
  A round robin of two players is completed without a winner; a completed single
  elimination that is started again is in progress with a winner (the player object at
  reference 5).
\<close>

theorem winner_iff_completed_counterexample:
  "map_option status (tournamentOf roundRobinReported ''a'') = Some Completed
   \<and> map_option winner (tournamentOf roundRobinReported ''a'') = Some None
   \<and> map_option status (tournamentOf eliminationRestarted ''a'') = Some InProgress
   \<and> map_option winner (tournamentOf eliminationRestarted ''a'') = Some (Some 5)"
  by (simp add: sample_run)

theorem winner_and_status_witness:
  "\<exists>s t. eliminationReported = Inr s \<and> reachable s \<and> tournaments s ''a'' = Some t
     \<and> t_type t = SingleElimination \<and> status t = Completed \<and> winner t \<noteq> None"
proof -
  let ?s0 = "newTournamentSystem sampleIds sampleReals"
  have "\<exists>t0 s0 t1 s1.
          createTournament ?s0 ''T'' SingleElimination [''ai_easy'', ''ai_medium'']
            = Inr (t0, s0)
        \<and> startTournament s0 ''a'' = Inr (t1, s1)
        \<and> eliminationReported = reportMatchResult s1 ''a'' ''aa'' Player1"
    by (simp add: sample_run)
  then obtain t0 s0 t1 s1
    where c: "createTournament ?s0 ''T'' SingleElimination [''ai_easy'', ''ai_medium'']
                = Inr (t0, s0)"
      and st: "startTournament s0 ''a'' = Inr (t1, s1)"
      and run: "eliminationReported = reportMatchResult s1 ''a'' ''aa'' Player1"
    by blast
  have obs: "map_option status (tournamentOf eliminationReported ''a'') = Some Completed"
    "map_option t_type (tournamentOf eliminationReported ''a'') = Some SingleElimination"
    by (simp_all add: sample_run)
  have "\<exists>s2. eliminationReported = Inr s2"
  proof (cases eliminationReported)
    case (Inl e)
    from obs(1) [unfolded Inl] show ?thesis by (simp add: tournamentOf_def)
  next
    case (Inr s2)
    then show ?thesis by blast
  qed
  then obtain s2 where s2: "eliminationReported = Inr s2" by blast
  from obs [unfolded s2] obtain t2 where t2: "tournaments s2 ''a'' = Some t2"
      "status t2 = Completed" "t_type t2 = SingleElimination"
    by (auto simp: tournamentOf_def)
  have "reachable s1"
    by (rule reachable.start [OF reachable.create [OF reachable.new c] st])
  then have r: "reachable s2"
    by (rule reachable.report [of s1 "''a''" "''aa''" Player1]) (simp add: run [symmetric] s2)
  from winner_and_status [OF r t2(1)] t2 have "winner t2 \<noteq> None" by simp
  with s2 r t2 show ?thesis by blast
qed

text \<open>
  C5. The registry entry of a participant after a reported result: the rating is what it
  was, the stats are not. \<open>{ ...player }\<close> copies the reference to the stats object, so the
  snapshot and the registry entry count on the same object.
\<close>

theorem registry_stats_shared:
  "registryStats (Inr (newTournamentSystem sampleIds sampleReals)) ''ai_easy''
     = Some \<lparr>wins = 0, losses = 0, draws = 0, gamesPlayed = 0\<rparr>
   \<and> registryStats roundRobinReported ''ai_easy''
     = Some \<lparr>wins = 1, losses = 0, draws = 0, gamesPlayed = 1\<rparr>
   \<and> registryElo roundRobinReported ''ai_easy'' = Some 1200"
  by (simp add: sample_run)

text \<open>
  Reporting twice on the only match of a round robin of two: the second report succeeds,
  replaces the result and counts the game again.
\<close>

theorem second_report_counterexample:
  "matchResults roundRobinReported ''a'' = Some [Player1]
   \<and> map_option gamesPlayed (registryStats roundRobinReported ''ai_easy'') = Some 1
   \<and> matchResults roundRobinReportedTwice ''a'' = Some [Player2]
   \<and> map_option gamesPlayed (registryStats roundRobinReportedTwice ''ai_easy'') = Some 2"
  by (simp add: sample_run)

lemma find_setResult:
  "find (\<lambda>m. m_id m = matchId) ms = Some m \<Longrightarrow>
     find (\<lambda>m. m_id m = matchId) (setResult matchId r ms) = Some (m\<lparr>result := r\<rparr>)"
  by (induction ms) (auto split: if_splits)

lemma find_append_found: "find P xs = Some x \<Longrightarrow> find P (xs @ ys) = Some x"
  by (induction xs) (auto split: if_splits)

lemma advanceTournament_matches:
  "\<exists>ms. matches (fst (advanceTournament s t)) = matches t @ ms"
  by (simp add: advanceTournament_def advanceSingleElimination_def Let_def split_beta)

lemma completeTournament_matches [simp]: "matches (completeTournament t) = matches t"
  by (simp add: completeTournament_def Let_def split: option.splits)

lemma newMatches_statsObjs [simp]: "statsObjs (snd (newMatches s rn pairs)) = statsObjs s"
  by (induction pairs arbitrary: s) (simp_all add: split_beta newMatch_def generateId_def)

lemma advanceTournament_statsObjs [simp]:
  "statsObjs (snd (advanceTournament s t)) = statsObjs s"
  by (simp add: advanceTournament_def advanceSingleElimination_def Let_def split_beta)

lemma updateELORatings_statsObjs [simp]: "statsObjs (updateELORatings s m) = statsObjs s"
  by (simp add: updateELORatings_def Let_def split: option.splits)

lemma updatePlayer_gamesPlayed:
  "gamesPlayed (statsObjs (updatePlayer s p won drew) x)
     = gamesPlayed (statsObjs s x) + (if x = stats (playerObjs s p) then 1 else 0)"
  by (simp add: updatePlayer_def Let_def)

lemma updatePlayer_playerObjs [simp]: "playerObjs (updatePlayer s p won drew) = playerObjs s"
  by (simp add: updatePlayer_def Let_def)

lemma updatePlayerStats_gamesPlayed:
  assumes "result m \<noteq> Pending"
  shows "gamesPlayed (statsObjs s (stats (playerObjs s (player1 m))))
           < gamesPlayed (statsObjs (updatePlayerStats s m) (stats (playerObjs s (player1 m))))"
  using assms by (cases "result m") (simp_all add: updatePlayerStats_def updatePlayer_gamesPlayed)

lemma newMatches_playerObjs [simp]: "playerObjs (snd (newMatches s rn pairs)) = playerObjs s"
  by (induction pairs arbitrary: s) (simp_all add: split_beta newMatch_def generateId_def)

lemma advanceTournament_playerObjs [simp]:
  "playerObjs (snd (advanceTournament s t)) = playerObjs s"
  by (simp add: advanceTournament_def advanceSingleElimination_def Let_def split_beta)

lemma updatePlayerStats_playerObjs [simp]:
  "playerObjs (updatePlayerStats s m) = playerObjs s"
  by (cases "result m") (simp_all add: updatePlayerStats_def)

lemma updatePlayerStats_gamesPlayed2:
  assumes "result m \<noteq> Pending"
  shows "gamesPlayed (statsObjs s (stats (playerObjs s (player2 m))))
           < gamesPlayed (statsObjs (updatePlayerStats s m) (stats (playerObjs s (player2 m))))"
  using assms by (cases "result m") (simp_all add: updatePlayerStats_def updatePlayer_gamesPlayed)

lemma updateELORatings_elo:
  assumes "newRatings (result m) (elo (playerObjs s (player1 m))) (elo (playerObjs s (player2 m)))
             = Some (e1, e2)"
  shows "elo (playerObjs (updateELORatings s m) (player2 m)) = e2"
    and "player1 m \<noteq> player2 m \<Longrightarrow> elo (playerObjs (updateELORatings s m) (player1 m)) = e1"
  using assms by (simp_all add: updateELORatings_def Let_def)

text \<open>
  C6, as amended. \<open>reportMatchResult\<close> fails only when the tournament or the match is not
  found. On a match it finds, whatever its result so far, it succeeds and the match then
  carries the reported result. The stats are counted again: the stats objects are those
  \<open>updatePlayerStats\<close> leaves for the match with the new result, so for a reported win,
  loss or draw the games of player 1 and of player 2 are each counted once more. The
  ratings are updated again: the player objects are those \<open>updateELORatings\<close> leaves, so
  when the formula gives new ratings for the reported result (it does for a win, a loss
  and a draw), computed from the two ratings as they are before the call, player 2 has
  the second of them and player 1, when it is another object, the first.
\<close>

theorem report_overwrites_result:
  assumes "tournaments s tournamentId = Some t"
    and "find (\<lambda>m. m_id m = matchId) (matches t) = Some m"
  shows "\<exists>s' t'. reportMatchResult s tournamentId matchId r = Inr s'
           \<and> tournaments s' tournamentId = Some t'
           \<and> map_option result (find (\<lambda>m. m_id m = matchId) (matches t')) = Some r
           \<and> statsObjs s' = statsObjs (updatePlayerStats s (m\<lparr>result := r\<rparr>))
           \<and> playerObjs s' = playerObjs (updateELORatings (updatePlayerStats s (m\<lparr>result := r\<rparr>))
                                            (m\<lparr>result := r\<rparr>))
           \<and> (r \<noteq> Pending \<longrightarrow>
                gamesPlayed (statsObjs s (stats (playerObjs s (player1 m))))
                  < gamesPlayed (statsObjs s' (stats (playerObjs s (player1 m))))
                \<and> gamesPlayed (statsObjs s (stats (playerObjs s (player2 m))))
                  < gamesPlayed (statsObjs s' (stats (playerObjs s (player2 m)))))
           \<and> (\<forall>e1 e2. newRatings r (elo (playerObjs s (player1 m)))
                          (elo (playerObjs s (player2 m))) = Some (e1, e2) \<longrightarrow>
                  elo (playerObjs s' (player2 m)) = e2
                  \<and> (player1 m \<noteq> player2 m \<longrightarrow> elo (playerObjs s' (player1 m)) = e1))"
proof -
  define m' where "m' = m\<lparr>result := r\<rparr>"
  define t1 where "t1 = t\<lparr>matches := setResult matchId r (matches t)\<rparr>"
  define s1 where "s1 = updatePlayerStats s m'"
  define s2 where "s2 = updateELORatings s1 m'"
  define t2 where "t2 = (if isTournamentComplete t1 then completeTournament t1
                          else fst (advanceTournament s2 t1))"
  define s3 where "s3 = (if isTournamentComplete t1 then s2 else snd (advanceTournament s2 t1))"
  define s' where "s' = s3\<lparr>tournaments := (tournaments s3)(tournamentId \<mapsto> t2)\<rparr>"
  have run: "reportMatchResult s tournamentId matchId r = Inr s'"
    using assms
    by (simp add: reportMatchResult_def Let_def split_beta m'_def t1_def s1_def s2_def t2_def
        s3_def s'_def)
  have "find (\<lambda>m. m_id m = matchId) (matches t1) = Some m'"
    using find_setResult [OF assms(2)] by (simp add: t1_def m'_def)
  moreover have "\<exists>ms. matches t2 = matches t1 @ ms"
  proof (cases "isTournamentComplete t1")
    case True
    then show ?thesis by (simp add: t2_def)
  next
    case False
    then show ?thesis using advanceTournament_matches [of s2 t1] by (simp add: t2_def)
  qed
  then obtain ms where "matches t2 = matches t1 @ ms" by blast
  ultimately have "find (\<lambda>m. m_id m = matchId) (matches t2) = Some m'"
    by (simp add: find_append_found)
  then have found: "map_option result (find (\<lambda>m. m_id m = matchId) (matches t2)) = Some r"
    by (simp add: m'_def)
  have stats: "statsObjs s' = statsObjs s1"
    by (simp add: s'_def s3_def s2_def)
  have objs: "playerObjs s' = playerObjs s2"
    by (simp add: s'_def s3_def)
  have played: "gamesPlayed (statsObjs s (stats (playerObjs s (player1 m))))
                  < gamesPlayed (statsObjs s' (stats (playerObjs s (player1 m))))
                \<and> gamesPlayed (statsObjs s (stats (playerObjs s (player2 m))))
                  < gamesPlayed (statsObjs s' (stats (playerObjs s (player2 m))))"
    if "r \<noteq> Pending"
    using updatePlayerStats_gamesPlayed [of m' s] updatePlayerStats_gamesPlayed2 [of m' s] that
    unfolding stats s1_def by (simp add: m'_def)
  have rated: "elo (playerObjs s' (player2 m)) = e2
                  \<and> (player1 m \<noteq> player2 m \<longrightarrow> elo (playerObjs s' (player1 m)) = e1)"
    if "newRatings r (elo (playerObjs s (player1 m))) (elo (playerObjs s (player2 m)))
          = Some (e1, e2)" for e1 e2
  proof -
    from that
    have "newRatings (result m') (elo (playerObjs s1 (player1 m')))
            (elo (playerObjs s1 (player2 m'))) = Some (e1, e2)"
      by (simp add: m'_def s1_def)
    from updateELORatings_elo [OF this] show ?thesis
      unfolding objs s2_def by (simp add: m'_def)
  qed
  have "tournaments s' tournamentId = Some t2" by (simp add: s'_def)
  with run found stats objs played rated show ?thesis
    unfolding s1_def s2_def m'_def by blast
qed

theorem report_overwrites_result_witness:
  "\<exists>s t m. roundRobinReported = Inr s \<and> tournaments s ''a'' = Some t
     \<and> find (\<lambda>m. m_id m = ''aa'') (matches t) = Some m \<and> result m = Player1
     \<and> player1 m \<noteq> player2 m
     \<and> (\<exists>s' t'. reportMatchResult s ''a'' ''aa'' Player2 = Inr s'
           \<and> tournaments s' ''a'' = Some t'
           \<and> map_option result (find (\<lambda>m. m_id m = ''aa'') (matches t')) = Some Player2
           \<and> gamesPlayed (statsObjs s (stats (playerObjs s (player1 m))))
                < gamesPlayed (statsObjs s' (stats (playerObjs s (player1 m))))
           \<and> gamesPlayed (statsObjs s (stats (playerObjs s (player2 m))))
                < gamesPlayed (statsObjs s' (stats (playerObjs s (player2 m))))
           \<and> (\<exists>e1 e2. newRatings Player2 (elo (playerObjs s (player1 m)))
                         (elo (playerObjs s (player2 m))) = Some (e1, e2)
                \<and> elo (playerObjs s' (player1 m)) = e1
                \<and> elo (playerObjs s' (player2 m)) = e2))"
proof -
  have obs: "map_option (\<lambda>t. map_option (\<lambda>m. (result m, player1 m, player2 m))
                                (find (\<lambda>m. m_id m = ''aa'') (matches t)))
               (tournamentOf roundRobinReported ''a'') = Some (Some (Player1, 5, 6))"
    by (simp add: sample_run)
  have "\<exists>s. roundRobinReported = Inr s"
  proof (cases roundRobinReported)
    case (Inl e)
    from obs [unfolded Inl] show ?thesis by (simp add: tournamentOf_def)
  next
    case (Inr s)
    then show ?thesis by blast
  qed
  then obtain s where s: "roundRobinReported = Inr s" by blast
  from obs [unfolded s] obtain t m where t: "tournaments s ''a'' = Some t"
    and m: "find (\<lambda>m. m_id m = ''aa'') (matches t) = Some m" "result m = Player1"
      "player1 m \<noteq> player2 m"
    by (auto simp: tournamentOf_def)
  obtain e1 e2 where e: "newRatings Player2 (elo (playerObjs s (player1 m)))
                           (elo (playerObjs s (player2 m))) = Some (e1, e2)"
    by (simp add: newRatings_cases)
  from report_overwrites_result [OF t m(1), of Player2] s t m e show ?thesis by auto
qed

subsection \<open>Single elimination with four players\<close>

lemma newMatches_randomIds [simp]: "randomIds (snd (newMatches s rn pairs)) = randomIds s"
  by (induction pairs arbitrary: s) (simp_all add: split_beta newMatch_def generateId_def)

lemma updatePlayerStats_ids [simp]:
  "randomIds (updatePlayerStats s m) = randomIds s"
  "idsDrawn (updatePlayerStats s m) = idsDrawn s"
  by (cases "result m"; simp add: updatePlayerStats_def updatePlayer_def Let_def)+

lemma updateELORatings_ids [simp]:
  "randomIds (updateELORatings s m) = randomIds s"
  "idsDrawn (updateELORatings s m) = idsDrawn s"
  by (simp_all add: updateELORatings_def Let_def split: option.splits)

lemma create_four:
  assumes "playerDatabase s a = Some ra" "playerDatabase s b = Some rb"
    "playerDatabase s c = Some rc" "playerDatabase s d = Some rd"
  shows "\<exists>t s1 m1 m2.
           createTournament s n SingleElimination [a, b, c, d] = Inr (t, s1)
         \<and> t_id t = randomIds s (idsDrawn s) \<and> t_type t = SingleElimination
         \<and> status t = Setup \<and> winner t = None \<and> currentRound t = 0 \<and> totalRounds t = 2
         \<and> matches t = [m1, m2] \<and> map length (rounds (bracket t)) = [2, 0]
         \<and> m_id m1 = randomIds s (idsDrawn s + 1) \<and> m_id m2 = randomIds s (idsDrawn s + 2)
         \<and> roundNumber m1 = 1 \<and> roundNumber m2 = 1
         \<and> result m1 = Pending \<and> result m2 = Pending
         \<and> player1 m1 = nextPlayerRef s \<and> player2 m1 = nextPlayerRef s + 1
         \<and> player1 m2 = nextPlayerRef s + 2 \<and> player2 m2 = nextPlayerRef s + 3
         \<and> tournaments s1 (t_id t) = Some t
         \<and> randomIds s1 = randomIds s \<and> idsDrawn s1 = idsDrawn s + 3"
  using assms
  by (simp add: createTournament_def generateId_def generateBracket_def
      generateSingleEliminationBracket_def newMatch_def calculateTotalRounds_def
      allocPlayer_def seRounds_short seRounds_long split_beta Let_def
      ceillog2_Suc4)


lemma report_first:
  assumes t: "tournaments s tid = Some t" and ty: "t_type t = SingleElimination"
    and ms: "matches t = [m1, m2]"
    and rn: "roundNumber m1 = 1" "roundNumber m2 = 1" and pend: "result m2 = Pending"
    and rounds: "currentRound t = 1" "totalRounds t = 2"
  shows "\<exists>s'. reportMatchResult s tid (m_id m1) Player1 = Inr s'
           \<and> tournaments s' tid = Some (t\<lparr>matches := [m1\<lparr>result := Player1\<rparr>, m2]\<rparr>)
           \<and> randomIds s' = randomIds s \<and> idsDrawn s' = idsDrawn s"
  using assms
  by (simp add: reportMatchResult_def isTournamentComplete_def advanceTournament_def
      advanceSingleElimination_def Let_def split_beta)

lemma report_second:
  assumes t: "tournaments s tid = Some t" and ty: "t_type t = SingleElimination"
    and ms: "matches t = [m1, m2]" and ids: "m_id m1 \<noteq> m_id m2"
    and rn: "roundNumber m1 = 1" "roundNumber m2 = 1" and res: "result m1 = Player1"
    and rounds: "currentRound t = 1" "totalRounds t = 2"
  shows "\<exists>s'. reportMatchResult s tid (m_id m2) Player1 = Inr s'
           \<and> tournaments s' tid =
               Some (t\<lparr>matches := [m1, m2\<lparr>result := Player1\<rparr>,
                                     \<lparr>m_id = randomIds s (idsDrawn s), player1 = player1 m1,
                                      player2 = player1 m2, result = Pending, roundNumber = 2,
                                      moves = []\<rparr>],
                        currentRound := 2\<rparr>)
           \<and> randomIds s' = randomIds s"
  using assms
  by (simp add: reportMatchResult_def isTournamentComplete_def advanceTournament_def
      advanceSingleElimination_def newMatch_def generateId_def Let_def split_beta)

lemma report_final:
  assumes t: "tournaments s tid = Some t" and ty: "t_type t = SingleElimination"
    and ms: "matches t = [m1, m2, m3]" and ids: "m_id m1 \<noteq> m_id m3" "m_id m2 \<noteq> m_id m3"
    and rn: "roundNumber m1 = 1" "roundNumber m2 = 1" "roundNumber m3 = 2"
    and rounds: "totalRounds t = 2" and r: "r = Player1 \<or> r = Player2"
  shows "\<exists>s' t'. reportMatchResult s tid (m_id m3) r = Inr s'
           \<and> tournaments s' tid = Some t' \<and> status t' = Completed
           \<and> winner t' = Some (if r = Player1 then player1 m3 else player2 m3)"
  using assms
  by (auto simp: reportMatchResult_def isTournamentComplete_def completeTournament_def
      Let_def split_beta)


lemma setResult_roundNumber:
  "m \<in> set (setResult matchId r ms) \<Longrightarrow> \<exists>m' \<in> set ms. roundNumber m = roundNumber m'"
  by (induction ms) (auto split: if_splits)

text \<open>
  Before \<open>startTournament\<close> the current round is 0, no match belongs to it, and a report
  only records the result: no next round is generated.
\<close>

lemma report_before_start:
  assumes t: "tournaments s tid = Some t" and ty: "t_type t = SingleElimination"
    and rounds: "currentRound t = 0" "totalRounds t = 2"
    and rn: "\<forall>m \<in> set (matches t). roundNumber m = 1"
    and m0: "find (\<lambda>m. m_id m = matchId) (matches t) = Some m0"
  shows "\<exists>s'. reportMatchResult s tid matchId r = Inr s'
           \<and> tournaments s' tid = Some (t\<lparr>matches := setResult matchId r (matches t)\<rparr>)"
proof -
  have one: "roundNumber m = 1" if "m \<in> set (setResult matchId r (matches t))" for m
    using setResult_roundNumber [OF that] rn by auto
  then have none2: "filter (\<lambda>m. roundNumber m = 2) (setResult matchId r (matches t)) = []"
    and none0: "filter (\<lambda>m. roundNumber m = 0 \<and> result m \<noteq> Pending)
                  (setResult matchId r (matches t)) = []"
    by (auto simp: filter_empty_conv)
  show ?thesis
    using t ty rounds m0 none2 none0
    by (simp add: reportMatchResult_def isTournamentComplete_def advanceTournament_def
        advanceSingleElimination_def Let_def split_beta)
qed

text \<open>
  C7, as amended. A single-elimination tournament created from four registered players
  has \<open>totalRounds = 2\<close> and two matches, both of round 1. Once it is started with
  \<open>startTournament\<close> and \<open>Player1\<close> is reported in both, there is exactly one match of
  round 2, pending, between player 1 of the first match and player 1 of the second.
  Reporting \<open>Player1\<close> or \<open>Player2\<close> in it completes the tournament with that player as
  winner. The three match ids drawn are taken to be distinct.
\<close>

theorem single_elimination_four_players:
  assumes db: "playerDatabase s a = Some ra" "playerDatabase s b = Some rb"
      "playerDatabase s c = Some rc" "playerDatabase s d = Some rd"
    and ids: "randomIds s (idsDrawn s + 1) \<noteq> randomIds s (idsDrawn s + 2)"
      "randomIds s (idsDrawn s + 1) \<noteq> randomIds s (idsDrawn s + 3)"
      "randomIds s (idsDrawn s + 2) \<noteq> randomIds s (idsDrawn s + 3)"
    and r: "r = Player1 \<or> r = Player2"
  shows "\<exists>t s1 t1 s2 s3 s4 t4 m3 s5 t5.
           createTournament s n SingleElimination [a, b, c, d] = Inr (t, s1)
         \<and> totalRounds t = 2
         \<and> length (matches t) = 2
         \<and> length (filter (\<lambda>m. roundNumber m = 1) (matches t)) = 2
         \<and> map length (rounds (bracket t)) = [2, 0]
         \<and> startTournament s1 (t_id t) = Inr (t1, s2)
         \<and> reportMatchResult s2 (t_id t) (m_id (matches t ! 0)) Player1 = Inr s3
         \<and> reportMatchResult s3 (t_id t) (m_id (matches t ! 1)) Player1 = Inr s4
         \<and> tournaments s4 (t_id t) = Some t4
         \<and> filter (\<lambda>m. roundNumber m = 2) (matches t4) = [m3]
         \<and> result m3 = Pending
         \<and> player1 m3 = player1 (matches t ! 0) \<and> player2 m3 = player1 (matches t ! 1)
         \<and> reportMatchResult s4 (t_id t) (m_id m3) r = Inr s5
         \<and> tournaments s5 (t_id t) = Some t5
         \<and> status t5 = Completed
         \<and> winner t5 = Some (if r = Player1 then player1 m3 else player2 m3)"
proof -
  from create_four [OF db, of n] obtain t s1 m1 m2
    where c: "createTournament s n SingleElimination [a, b, c, d] = Inr (t, s1)"
      and t: "t_id t = randomIds s (idsDrawn s)" "t_type t = SingleElimination"
        "totalRounds t = 2" "matches t = [m1, m2]" "map length (rounds (bracket t)) = [2, 0]"
      and m: "m_id m1 = randomIds s (idsDrawn s + 1)" "m_id m2 = randomIds s (idsDrawn s + 2)"
        "roundNumber m1 = 1" "roundNumber m2 = 1" "result m2 = Pending"
      and s1: "tournaments s1 (t_id t) = Some t" "randomIds s1 = randomIds s"
        "idsDrawn s1 = idsDrawn s + 3"
    by (elim exE conjE) (rule that)
  define t1 where "t1 = t\<lparr>status := InProgress, currentRound := 1\<rparr>"
  define s2 where "s2 = s1\<lparr>tournaments := (tournaments s1)(t_id t \<mapsto> t1)\<rparr>"
  have st: "startTournament s1 (t_id t) = Inr (t1, s2)"
    using s1(1) by (simp add: startTournament_def Let_def t1_def s2_def)
  have s2: "tournaments s2 (t_id t) = Some t1" "randomIds s2 = randomIds s"
    "idsDrawn s2 = idsDrawn s + 3"
    using s1 by (simp_all add: s2_def)
  from report_first [OF s2(1), of m1 m2] t m
  obtain s3 where r1: "reportMatchResult s2 (t_id t) (m_id m1) Player1 = Inr s3"
    and s3: "tournaments s3 (t_id t) = Some (t1\<lparr>matches := [m1\<lparr>result := Player1\<rparr>, m2]\<rparr>)"
      "randomIds s3 = randomIds s2" "idsDrawn s3 = idsDrawn s2"
    by (auto simp: t1_def)
  define m3 where "m3 = \<lparr>m_id = randomIds s (idsDrawn s + 3), player1 = player1 m1,
      player2 = player1 m2, result = Pending, roundNumber = 2, moves = []\<rparr>"
  define t4 where "t4 = t1\<lparr>matches := [m1\<lparr>result := Player1\<rparr>, m2\<lparr>result := Player1\<rparr>, m3],
      currentRound := 2\<rparr>"
  from report_second [OF s3(1), of "m1\<lparr>result := Player1\<rparr>" m2] t m ids(1)
  obtain s4 where r2: "reportMatchResult s3 (t_id t) (m_id m2) Player1 = Inr s4"
    and s4: "tournaments s4 (t_id t) = Some t4"
    by (auto simp: t1_def t4_def m3_def s3 s2)
  from report_final [OF s4(1), of "m1\<lparr>result := Player1\<rparr>" "m2\<lparr>result := Player1\<rparr>" m3 r]
    t m ids r
  obtain s5 t5 where r3: "reportMatchResult s4 (t_id t) (m_id m3) r = Inr s5"
    and s5: "tournaments s5 (t_id t) = Some t5" "status t5 = Completed"
      "winner t5 = Some (if r = Player1 then player1 m3 else player2 m3)"
    by (auto simp: t1_def t4_def m3_def)
  have round2: "filter (\<lambda>m. roundNumber m = 2) (matches t4) = [m3]"
    using m by (simp add: t4_def m3_def)
  have m3: "result m3 = Pending" "player1 m3 = player1 (matches t ! 0)"
    "player2 m3 = player1 (matches t ! 1)"
    using t by (simp_all add: m3_def)
  have first: "m_id (matches t ! 0) = m_id m1" "m_id (matches t ! 1) = m_id m2"
    using t by simp_all
  have counts: "length (matches t) = 2"
    "length (filter (\<lambda>m. roundNumber m = 1) (matches t)) = 2"
    using t m by simp_all
  note r1' = r1 [unfolded first [symmetric]] and r2' = r2 [unfolded first [symmetric]]
  show ?thesis
    by (intro exI conjI) (rule c t(3) t(5) counts st r1' r2' s4 round2 m3 r3 s5)+
qed

theorem single_elimination_four_players_witness:
  "\<exists>t s1 t1 s2 s3 s4 t4 m3 s5 t5.
     createTournament (newTournamentSystem sampleIds sampleReals) ''Cup'' SingleElimination
       [''ai_easy'', ''ai_medium'', ''ai_hard'', ''ai_expert''] = Inr (t, s1)
   \<and> totalRounds t = 2
   \<and> length (matches t) = 2
   \<and> length (filter (\<lambda>m. roundNumber m = 1) (matches t)) = 2
   \<and> map length (rounds (bracket t)) = [2, 0]
   \<and> startTournament s1 (t_id t) = Inr (t1, s2)
   \<and> reportMatchResult s2 (t_id t) (m_id (matches t ! 0)) Player1 = Inr s3
   \<and> reportMatchResult s3 (t_id t) (m_id (matches t ! 1)) Player1 = Inr s4
   \<and> tournaments s4 (t_id t) = Some t4
   \<and> filter (\<lambda>m. roundNumber m = 2) (matches t4) = [m3]
   \<and> result m3 = Pending
   \<and> player1 m3 = player1 (matches t ! 0) \<and> player2 m3 = player1 (matches t ! 1)
   \<and> reportMatchResult s4 (t_id t) (m_id m3) Player2 = Inr s5
   \<and> tournaments s5 (t_id t) = Some t5
   \<and> status t5 = Completed
   \<and> winner t5 = Some (player2 m3)"
proof -
  let ?s = "newTournamentSystem sampleIds sampleReals"
  have db: "playerDatabase ?s ''ai_easy'' = Some 0" "playerDatabase ?s ''ai_medium'' = Some 1"
    "playerDatabase ?s ''ai_hard'' = Some 2" "playerDatabase ?s ''ai_expert'' = Some 3"
    by (simp_all add: newTournamentSystem_def initializeAIPlayers_def registerPlayer_def
      allocStats_def allocPlayer_def emptySystem_def difficultyLower_def upt5 split_beta Let_def)
  have ids: "randomIds ?s (idsDrawn ?s + 1) \<noteq> randomIds ?s (idsDrawn ?s + 2)"
    "randomIds ?s (idsDrawn ?s + 1) \<noteq> randomIds ?s (idsDrawn ?s + 3)"
    "randomIds ?s (idsDrawn ?s + 2) \<noteq> randomIds ?s (idsDrawn ?s + 3)"
    by (simp_all add: newSystem_fields sampleIds_def numeral_eq_Suc)
  have r: "Player2 = Player1 \<or> Player2 = Player2" by simp
  from single_elimination_four_players [OF db ids r, of "''Cup''"]
  show ?thesis by simp
qed

text \<open>
  Without \<open>startTournament\<close> the two reports are accepted and recorded, and that is all:
  the tournament stays in \<open>Setup\<close> at round 0 and its matches are the two of round 1.
\<close>

theorem four_players_unstarted_counterexample:
  "matchResults fourReportedUnstarted ''a'' = Some [Player1, Player1]
   \<and> matchRounds fourReportedUnstarted ''a'' = Some [1, 1]
   \<and> map_option status (tournamentOf fourReportedUnstarted ''a'') = Some Setup
   \<and> map_option currentRound (tournamentOf fourReportedUnstarted ''a'') = Some 0"
  by (simp add: fourReportedUnstarted_def matchRounds_def sample_run newSystem_strong)

end
